theory Spec2Isabelle
  imports Main
begin

section \<open>JavaScript strings\<close>

text \<open>
  Strings are lists of code units; the model keeps the code units below 256, so a
  \<^typ>\<open>string\<close> stands for a JavaScript string of Latin-1 characters. The white space
  that \<^verbatim>\<open>String.prototype.trim\<close> strips is, in that range: TAB, LF, VT, FF, CR,
  SPACE and NO-BREAK SPACE.
\<close>

definition isWhiteSpace :: "char \<Rightarrow> bool" where
  "isWhiteSpace c =
     (c = CHR 0x09 \<or> c = CHR 0x0A \<or> c = CHR 0x0B \<or> c = CHR 0x0C \<or> c = CHR 0x0D
      \<or> c = CHR 0x20 \<or> c = CHR 0xA0)"

definition trim :: "string \<Rightarrow> string" where
  "trim s = rev (dropWhile isWhiteSpace (rev (dropWhile isWhiteSpace s)))"

definition startsWith :: "string \<Rightarrow> string \<Rightarrow> bool" where
  "startsWith s p = (take (length p) s = p)"

text \<open>\<^verbatim>\<open>s.includes(p)\<close>: \<open>p\<close> occurs in \<open>s\<close> as a contiguous substring.\<close>

fun str_includes :: "string \<Rightarrow> string \<Rightarrow> bool" where
  "str_includes [] p = (p = [])"
| "str_includes (c # cs) p = (startsWith (c # cs) p \<or> str_includes cs p)"

text \<open>
  \<^verbatim>\<open>s.replace(p, r)\<close> with a string pattern: the first occurrence of \<open>p\<close> is replaced.
  The source only ever replaces by the empty string, so the \<^verbatim>\<open>$\<close> patterns of the
  replacement string play no role.
\<close>

fun replace :: "string \<Rightarrow> string \<Rightarrow> string \<Rightarrow> string" where
  "replace [] p r = (if p = [] then r else [])"
| "replace (c # cs) p r =
     (if startsWith (c # cs) p then r @ drop (length p) (c # cs) else c # replace cs p r)"

text \<open>\<^verbatim>\<open>s.split(d)\<close> for a one-character separator; the empty string splits into \<open>[""]\<close>.\<close>

fun split_char :: "string \<Rightarrow> char \<Rightarrow> string list" where
  "split_char [] d = [[]]"
| "split_char (c # cs) d =
     (if c = d then [] # split_char cs d
      else (case split_char cs d of [] \<Rightarrow> [[c]] | l # ls \<Rightarrow> (c # l) # ls))"


section \<open>Values, command results and the environment\<close>

text \<open>The error object with which \<^verbatim>\<open>child_process.exec\<close> rejects; it carries a message.\<close>

datatype js_error = ExecError string

datatype js_exn = TypeError

record CommandResult =
  type :: "string option"
  success :: bool
  stdout :: "string option"
  stderr :: "string option"
  error :: "js_error option"

text \<open>
  What the functions of \<^verbatim>\<open>networkManager.js\<close> return: a result object, the boolean
  \<^verbatim>\<open>false\<close>, or nothing (\<^verbatim>\<open>undefined\<close>).
\<close>

datatype js_value = Obj CommandResult | JsFalse | Undefined

text \<open>
  One run of \<^verbatim>\<open>execAsync(command)\<close> either resolves with the raw standard output and
  standard error, or rejects. The environment fixes, for the \<open>n\<close>-th command the process
  starts (counting from 0) and its text, how it ends.
\<close>

datatype exec_outcome = Resolved string string | Rejected js_error

type_synonym env = "nat \<Rightarrow> string \<Rightarrow> exec_outcome"

datatype payload = NoPayload | Result js_value | Flag bool

text \<open>
  The effects a run leaves behind, in order: \<^verbatim>\<open>ipcMain.emit\<close>,
  \<^verbatim>\<open>getWebContents().send\<close>, a shell command started through \<^verbatim>\<open>executeCommand\<close> (with
  its type tag), \<^verbatim>\<open>logger.logError\<close>, and an assignment to the module variable
  \<^verbatim>\<open>lastConnectionSSID\<close>.
\<close>

datatype event =
    Emitted string payload
  | Sent string payload
  | Executed string "string option"
  | Logged js_error string
  | Assigned "string option"

text \<open>
  \<open>pending\<close> holds the calls of \<^verbatim>\<open>deleteConnectionBySSID\<close> that were started without
  \<^verbatim>\<open>await\<close> and whose command has not finished yet: the index of the command and its text.
\<close>

record state =
  lastConnectionSSID :: "string option"
  store :: "string \<Rightarrow> string option"
  trace :: "event list"
  pending :: "(nat \<times> string) list"

fun is_Executed :: "event \<Rightarrow> bool" where
  "is_Executed (Executed c t) = True"
| "is_Executed e = False"

definition issued :: "state \<Rightarrow> nat" where
  "issued s = length (filter is_Executed (trace s))"


section \<open>utils.js: executeCommand\<close>

text \<open>
  The two object literals of \<^verbatim>\<open>executeCommand\<close>: the one returned from the \<^verbatim>\<open>try\<close>
  block (it has no \<^verbatim>\<open>error\<close> key) and the one returned from the \<^verbatim>\<open>catch\<close> block.
\<close>

fun commandResult :: "string option \<Rightarrow> exec_outcome \<Rightarrow> CommandResult" where
  "commandResult typ (Resolved out err) =
     \<lparr>type = typ, success = True, stdout = Some (trim out), stderr = Some (trim err),
      error = None\<rparr>"
| "commandResult typ (Rejected e) =
     \<lparr>type = typ, success = False, stdout = None, stderr = None, error = Some e\<rparr>"

text \<open>\<^verbatim>\<open>type || "executeCommand"\<close>: the tag under which a failure is logged.\<close>

fun logTag :: "string option \<Rightarrow> string" where
  "logTag None = ''executeCommand''"
| "logTag (Some t) = (if t = [] then ''executeCommand'' else t)"

text \<open>
  The \<^verbatim>\<open>catch\<close> block covers the whole body, so every rejection of \<^verbatim>\<open>execAsync\<close> ends
  in the second object literal. \<^verbatim>\<open>Logger.logError\<close> prints the message with
  \<^verbatim>\<open>console.error\<close> and, when a key is configured, hands the error to the AppSignal
  library; it has no \<^verbatim>\<open>throw\<close> of its own, and it is modelled as the event \<open>Logged\<close>.
  The function therefore always returns a result, which is its type here.
\<close>

definition executeCommand ::
  "env \<Rightarrow> string \<Rightarrow> string option \<Rightarrow> state \<Rightarrow> CommandResult \<times> state" where
  "executeCommand env command typ s =
     (let outcome = env (issued s) command;
          s1 = s\<lparr>trace := trace s @ [Executed command typ]\<rparr>
      in case outcome of
           Resolved out err \<Rightarrow> (commandResult typ outcome, s1)
         | Rejected e \<Rightarrow>
             (commandResult typ outcome, s1\<lparr>trace := trace s1 @ [Logged e (logTag typ)]\<rparr>))"


section \<open>networkManager.js\<close>

text \<open>
  \<^verbatim>\<open>quote\<close> is the function of the external package \<^verbatim>\<open>shell-quote\<close>: it turns an
  argument vector into one shell command line. It is a parameter of every function that
  builds a command with it. An argument may be \<^verbatim>\<open>undefined\<close> (a missing password).
\<close>

type_synonym quote = "string option list \<Rightarrow> string"

text \<open>
  \<^verbatim>\<open>r.success && r.stdout.includes(p)\<close>: the source reads \<^verbatim>\<open>stdout\<close> only behind
  \<^verbatim>\<open>success\<close>, and \<^verbatim>\<open>stdout\<close> is \<^verbatim>\<open>null\<close> only on results whose \<^verbatim>\<open>success\<close> is false.
\<close>

definition stdout_includes :: "CommandResult \<Rightarrow> string \<Rightarrow> bool" where
  "stdout_includes r p = (case stdout r of None \<Rightarrow> False | Some t \<Rightarrow> str_includes t p)"

text \<open>\<^verbatim>\<open>r.success && r.stdout.toString() === "1"\<close>, the test for a reachable server.\<close>

definition serverReached :: "CommandResult \<Rightarrow> bool" where
  "serverReached r = (success r \<and> stdout r = Some ''1'')"

subsection \<open>deleteConnectionBySSID\<close>

definition deleteCommand :: "quote \<Rightarrow> string \<Rightarrow> string" where
  "deleteCommand quote ssid = quote (map Some [''nmcli'', ''connection'', ''delete'', ssid])"

definition deleteConnectionBySSID :: "quote \<Rightarrow> env \<Rightarrow> string \<Rightarrow> state \<Rightarrow> bool \<times> state" where
  "deleteConnectionBySSID quote env ssid s =
     (case executeCommand env (deleteCommand quote ssid) (Some ''delete ssid'') s of
        (deleteResult, s1) \<Rightarrow>
          (success deleteResult,
           s1\<lparr>lastConnectionSSID := None, trace := trace s1 @ [Assigned None]\<rparr>))"

text \<open>
  A call \<^verbatim>\<open>networkManager.deleteConnectionBySSID(ssid);\<close> without \<^verbatim>\<open>await\<close> runs the
  callee up to its first suspension: the delete command is started, and the caller goes
  on. The rest of the callee (logging a failure, clearing \<^verbatim>\<open>lastConnectionSSID\<close>) runs
  when the command has finished, which is after the caller has returned; \<open>settle\<close> runs
  these pending halves.
\<close>

definition deleteConnectionBySSID_unawaited :: "quote \<Rightarrow> string \<Rightarrow> state \<Rightarrow> state" where
  "deleteConnectionBySSID_unawaited quote ssid s =
     s\<lparr>trace := trace s @ [Executed (deleteCommand quote ssid) (Some ''delete ssid'')],
       pending := pending s @ [(issued s, deleteCommand quote ssid)]\<rparr>"

fun deleteConnectionBySSID_finish :: "env \<Rightarrow> state \<Rightarrow> nat \<times> string \<Rightarrow> state" where
  "deleteConnectionBySSID_finish env s (n, command) =
     (let s1 = (case env n command of
                  Resolved out err \<Rightarrow> s
                | Rejected e \<Rightarrow> s\<lparr>trace := trace s @ [Logged e ''delete ssid'']\<rparr>)
      in s1\<lparr>lastConnectionSSID := None, trace := trace s1 @ [Assigned None]\<rparr>)"

definition settle :: "env \<Rightarrow> state \<Rightarrow> state" where
  "settle env s = foldl (deleteConnectionBySSID_finish env) (s\<lparr>pending := []\<rparr>) (pending s)"

subsection \<open>waitForActiveConnection\<close>

text \<open>
  The loop variables are \<^verbatim>\<open>attempts\<close>, \<^verbatim>\<open>connectionState\<close> (undefined before the first
  poll) and \<^verbatim>\<open>lastConnectionState\<close>. The pause of 500 ms between two polls is not
  modelled. In the \<^verbatim>\<open>"deactivated"\<close> branch the source updates the polled object and then
  returns \<^verbatim>\<open>false\<close>, so the updated object is lost. After the loop the source writes to
  \<^verbatim>\<open>connectionState\<close>, which throws a TypeError if no poll was made.
\<close>

function waitForActiveConnection_loop ::
  "env \<Rightarrow> string \<Rightarrow> nat \<Rightarrow> CommandResult option \<Rightarrow> string option \<Rightarrow> state
     \<Rightarrow> (js_exn + js_value) \<times> state" where
  "waitForActiveConnection_loop env connectionStateCommand attempts connectionState
       lastConnectionState s =
     (if attempts < 75 then
        (case executeCommand env connectionStateCommand None s of
           (cs, s1) \<Rightarrow>
             if success cs \<and> stdout_includes cs ''activated'' then (Inr (Obj cs), s1)
             else if success cs \<and> stdout_includes cs ''activating'' then
               waitForActiveConnection_loop env connectionStateCommand (attempts + 1)
                 (Some cs) (Some ''activating'') s1
             else if success cs \<and> stdout_includes cs ''deactivated'' then (Inr JsFalse, s1)
             else if lastConnectionState = Some ''activating'' then
               (Inr (Obj (cs\<lparr>success := False,
                   stderr := Some ''Operation went from activating to null. Most likely wrong password'',
                   type := Some ''802-11-wireless-security.psk''\<rparr>)), s1)
             else
               waitForActiveConnection_loop env connectionStateCommand (attempts + 1)
                 (Some cs) lastConnectionState s1)
      else
        (case connectionState of
           None \<Rightarrow> (Inl TypeError, s)
         | Some cs \<Rightarrow>
             (Inr (Obj (cs\<lparr>success := False,
                 stderr := Some ''Exceeded maximum attempts. Operation failed.''\<rparr>)), s)))"
  by pat_completeness auto
termination
  by (relation "measure (\<lambda>(env, c, attempts, cs, l, s). 75 - attempts)") auto

definition connectionStateCommand :: "quote \<Rightarrow> string \<Rightarrow> string" where
  "connectionStateCommand quote ssid =
     quote (map Some [''nmcli'', ''-f'', ''GENERAL.STATE'', ''connection'', ''show'', ssid])"

definition waitForActiveConnection ::
  "quote \<Rightarrow> env \<Rightarrow> string \<Rightarrow> state \<Rightarrow> (js_exn + js_value) \<times> state" where
  "waitForActiveConnection quote env ssid s =
     waitForActiveConnection_loop env (connectionStateCommand quote ssid) 0 None None s"

subsection \<open>checkConnectionToServer and attemptServerConnection\<close>

text \<open>A template literal prints an undefined value as \<^verbatim>\<open>undefined\<close>.\<close>

fun template_value :: "string option \<Rightarrow> string" where
  "template_value None = ''undefined''"
| "template_value (Some v) = v"

definition probeCommand :: "string option \<Rightarrow> string" where
  "probeCommand host =
     ''curl -sI https://'' @ template_value host
     @ ''/up | grep HTTP | grep -q 200 && echo 1 || echo 0''"

definition checkConnectionToServer :: "env \<Rightarrow> state \<Rightarrow> CommandResult \<times> state" where
  "checkConnectionToServer env s =
     (let host = store s ''host'';
          command = probeCommand host
      in executeCommand env command (Some ''server connection'') s)"

function attemptServerConnection_loop ::
  "env \<Rightarrow> nat \<Rightarrow> CommandResult option \<Rightarrow> state \<Rightarrow> js_value \<times> state" where
  "attemptServerConnection_loop env attempts connection s =
     (if attempts < 20 then
        (case checkConnectionToServer env s of
           (c, s1) \<Rightarrow>
             if success c \<and> stdout c = Some ''1'' then (Obj c, s1)
             else attemptServerConnection_loop env (attempts + 1) (Some c) s1)
      else
        (case connection of None \<Rightarrow> (Undefined, s) | Some c \<Rightarrow> (Obj c, s)))"
  by pat_completeness auto
termination
  by (relation "measure (\<lambda>(env, attempts, c, s). 20 - attempts)") auto

definition attemptServerConnection :: "env \<Rightarrow> state \<Rightarrow> js_value \<times> state" where
  "attemptServerConnection env s = attemptServerConnection_loop env 0 None s"


subsection \<open>resolveNetworkConnection and the three ways to connect\<close>

text \<open>
  Reading \<^verbatim>\<open>.success\<close> of \<^verbatim>\<open>false\<close> gives \<^verbatim>\<open>undefined\<close>, which is falsy; reading it of
  \<^verbatim>\<open>undefined\<close> throws a TypeError.
\<close>

fun get_success :: "js_value \<Rightarrow> js_exn + bool" where
  "get_success (Obj r) = Inr (success r)"
| "get_success JsFalse = Inr False"
| "get_success Undefined = Inl TypeError"

text \<open>
  The tail shared by \<^verbatim>\<open>resolveNetworkConnection\<close> and \<^verbatim>\<open>connectToHiddenNetwork\<close>: probe
  the server and, when it is not reached, start the deletion of the profile without
  waiting for it.
\<close>

definition serverStep :: "quote \<Rightarrow> env \<Rightarrow> string \<Rightarrow> state \<Rightarrow> (js_exn + js_value) \<times> state" where
  "serverStep quote env ssid s =
     (case attemptServerConnection env s of
        (serverConnectionResult, s1) \<Rightarrow>
          (case serverConnectionResult of
             Undefined \<Rightarrow> (Inl TypeError, s1)
           | JsFalse \<Rightarrow> (Inr JsFalse, deleteConnectionBySSID_unawaited quote ssid s1)
           | Obj r \<Rightarrow>
               if success r \<and> stdout r = Some ''1'' then (Inr (Obj r), s1)
               else (Inr (Obj r), deleteConnectionBySSID_unawaited quote ssid s1)))"

definition resolveNetworkConnection ::
  "quote \<Rightarrow> env \<Rightarrow> CommandResult \<Rightarrow> string \<Rightarrow> state \<Rightarrow> (js_exn + js_value) \<times> state" where
  "resolveNetworkConnection quote env connection ssid s =
     (if success connection then
        (case waitForActiveConnection quote env ssid s of
           (Inl e, s1) \<Rightarrow> (Inl e, s1)
         | (Inr activeConnection, s1) \<Rightarrow>
             (case get_success activeConnection of
                Inl e \<Rightarrow> (Inl e, s1)
              | Inr True \<Rightarrow> serverStep quote env ssid s1
              | Inr False \<Rightarrow>
                  (Inr activeConnection, deleteConnectionBySSID_unawaited quote ssid s1)))
      else (Inr (Obj connection), s))"

definition connectToUnsecureNetwork ::
  "quote \<Rightarrow> env \<Rightarrow> string \<Rightarrow> state \<Rightarrow> (js_exn + js_value) \<times> state" where
  "connectToUnsecureNetwork quote env ssid s =
     (let connectCommand = quote (map Some [''nmcli'', ''device'', ''wifi'', ''connect'', ssid])
      in case executeCommand env connectCommand (Some ''Unsecure network connection'') s of
           (connection, s1) \<Rightarrow> resolveNetworkConnection quote env connection ssid s1)"

definition addProfileArgs :: "string \<Rightarrow> string \<Rightarrow> string option \<Rightarrow> string option list" where
  "addProfileArgs verb ssid password =
     map Some [''nmcli'', verb, ''add'', ''type'', ''wifi'', ''ifname'', ''wlan0'',
               ''con-name'', ssid, ''ssid'', ssid, ''--'', ''wifi-sec.key-mgmt'', ''wpa-psk'',
               ''wifi-sec.psk'']
     @ [password]"

definition connectToWPANetwork ::
  "quote \<Rightarrow> env \<Rightarrow> string \<Rightarrow> string option \<Rightarrow> state \<Rightarrow> (js_exn + js_value) \<times> state" where
  "connectToWPANetwork quote env ssid password s =
     (let connectCommand = quote (addProfileArgs ''connection'' ssid password)
      in case executeCommand env connectCommand (Some ''WPA network connection'') s of
           (connection, s1) \<Rightarrow> resolveNetworkConnection quote env connection ssid s1)"

definition connectToHiddenNetwork ::
  "quote \<Rightarrow> env \<Rightarrow> string \<Rightarrow> string option \<Rightarrow> state \<Rightarrow> (js_exn + js_value) \<times> state" where
  "connectToHiddenNetwork quote env ssid password s =
     (let addConnectionCommand = quote (addProfileArgs ''conn'' ssid password)
      in case executeCommand env addConnectionCommand (Some ''Network connection'') s of
           (connectionResult, s1) \<Rightarrow>
             if success connectionResult \<and> stdout_includes connectionResult ''successfully added''
             then
               (let connectCommand = quote (map Some [''nmcli'', ''conn'', ''up'', ssid])
                in case executeCommand env connectCommand None s1 of
                     (connectResult, s2) \<Rightarrow>
                       if success connectResult
                          \<and> stdout_includes connectResult ''Connection successfully activated''
                       then serverStep quote env ssid s2
                       else (Inr (Obj connectResult),
                             deleteConnectionBySSID_unawaited quote ssid s2))
             else (Inr (Obj connectionResult), s1))"

subsection \<open>connectToNetwork\<close>

record connection_options =
  hidden :: bool

record connection_data =
  ssid :: string
  password :: "string option"
  security :: "string option"
  options :: "connection_options option"

text \<open>\<^verbatim>\<open>data.security || ""\<close> and the truth value of a string that may be missing.\<close>

fun or_empty :: "string option \<Rightarrow> string" where
  "or_empty None = []"
| "or_empty (Some v) = v"

fun truthy :: "string option \<Rightarrow> bool" where
  "truthy None = False"
| "truthy (Some v) = (v \<noteq> [])"

text \<open>\<^verbatim>\<open>(data.options || {}).hidden\<close>\<close>

fun hidden_flag :: "connection_options option \<Rightarrow> bool" where
  "hidden_flag None = False"
| "hidden_flag (Some opts) = hidden opts"

definition connectToNetwork ::
  "quote \<Rightarrow> env \<Rightarrow> connection_data \<Rightarrow> state \<Rightarrow> (js_exn + js_value) \<times> state" where
  "connectToNetwork quote env data s =
     (let s1 = s\<lparr>trace := trace s @ [Emitted ''is_connecting'' NoPayload]\<rparr>;
          s2 = (case lastConnectionSSID s1 of
                  None \<Rightarrow> s1
                | Some previous \<Rightarrow> snd (deleteConnectionBySSID quote env previous s1));
          s3 = s2\<lparr>lastConnectionSSID := Some (ssid data),
                  trace := trace s2 @ [Assigned (Some (ssid data))]\<rparr>
      in case (if hidden_flag (options data) then
                 connectToHiddenNetwork quote env (ssid data) (password data) s3
               else if str_includes (or_empty (security data)) ''WPA'' \<and> truthy (password data)
               then connectToWPANetwork quote env (ssid data) (password data) s3
               else connectToUnsecureNetwork quote env (ssid data) s3) of
           (Inl e, s4) \<Rightarrow> (Inl e, s4)
         | (Inr result, s4) \<Rightarrow>
             (Inr result, s4\<lparr>trace := trace s4 @ [Emitted ''connecting_result'' (Result result)]\<rparr>))"

subsection \<open>addDNS and the handler of connect_to_dns\<close>

definition activeUUIDCommand :: string where
  "activeUUIDCommand =
     ''nmcli -g active,uuid con | grep '' @ [CHR 0x27] @ ''^yes'' @ [CHR 0x27]
     @ '' | cut -d'' @ [CHR 0x27] @ '':'' @ [CHR 0x27] @ '' -f2 | head -n 1''"

definition getActiveConnectionUUID :: "env \<Rightarrow> state \<Rightarrow> CommandResult \<times> state" where
  "getActiveConnectionUUID env s = executeCommand env activeUUIDCommand None s"

text \<open>A template literal prints \<^verbatim>\<open>null\<close> as \<^verbatim>\<open>null\<close>.\<close>

fun template_null :: "string option \<Rightarrow> string" where
  "template_null None = ''null''"
| "template_null (Some v) = v"

definition dq :: string where
  "dq = [CHR 0x22]"

definition modifyDNSCommand :: "string \<Rightarrow> string \<Rightarrow> string" where
  "modifyDNSCommand connectionName dns =
     ''nmcli con mod '' @ dq @ connectionName @ dq @ '' ipv4.dns '' @ dns"

definition disableAutoDNSCommand :: "string \<Rightarrow> string" where
  "disableAutoDNSCommand connectionName =
     ''nmcli con mod '' @ dq @ connectionName @ dq @ '' ipv4.ignore-auto-dns yes''"

definition cycleCommand :: "string \<Rightarrow> string" where
  "cycleCommand connectionName =
     ''nmcli con down '' @ dq @ connectionName @ dq @ '' && nmcli con up '' @ dq
     @ connectionName @ dq"

text \<open>
  The second test of the source is \<^verbatim>\<open>if (disableAutoDNS)\<close>, on the result object
  itself: an object is truthy whatever its \<^verbatim>\<open>success\<close> field says, so the \<^verbatim>\<open>else\<close>
  branch that returns \<^verbatim>\<open>disableAutoDNS\<close> is never taken. \<open>object_truthy\<close> is that test.
  When the lookup of the UUID fails the function ends without a \<^verbatim>\<open>return\<close>.
\<close>

definition object_truthy :: "CommandResult \<Rightarrow> bool" where
  "object_truthy r = True"

definition addDNS :: "env \<Rightarrow> string \<Rightarrow> state \<Rightarrow> js_value \<times> state" where
  "addDNS env dns s =
     (case getActiveConnectionUUID env s of
        (connectionNameResult, s1) \<Rightarrow>
          if success connectionNameResult then
            (let connectionName = template_null (stdout connectionNameResult)
             in case executeCommand env (modifyDNSCommand connectionName dns) None s1 of
                  (modifyDNS, s2) \<Rightarrow>
                    if success modifyDNS then
                      (case executeCommand env (disableAutoDNSCommand connectionName) None s2 of
                         (disableAutoDNS, s3) \<Rightarrow>
                           if object_truthy disableAutoDNS then
                             (case executeCommand env (cycleCommand connectionName) None s3 of
                                (r, s4) \<Rightarrow> (Obj r, s4))
                           else (Obj disableAutoDNS, s3))
                    else (Obj modifyDNS, s2))
          else (Undefined, s1))"

text \<open>
  The handler \<^verbatim>\<open>ipcMain.on("connect_to_dns", ...)\<close>: it reads \<^verbatim>\<open>result.success\<close> twice;
  on an undefined result the first read throws, and nothing after it runs.
\<close>

definition connect_to_dns :: "env \<Rightarrow> string \<Rightarrow> state \<Rightarrow> (js_exn + unit) \<times> state" where
  "connect_to_dns env dns s =
     (let s1 = s\<lparr>trace := trace s @ [Sent ''dns_registerering'' NoPayload]\<rparr>
      in case addDNS env dns s1 of
           (result, s2) \<Rightarrow>
             (case get_success result of
                Inl e \<Rightarrow> (Inl e, s2)
              | Inr ok \<Rightarrow>
                  (let s3 = (if ok then s2\<lparr>store := (store s2)(''dns'' := Some dns)\<rparr> else s2)
                   in (Inr (), s3\<lparr>trace := trace s3 @ [Sent ''dns_registred'' (Flag ok)]\<rparr>))))"


section \<open>utils.js: parseWiFiScanResults\<close>

record ssidObject =
  ssid_of :: string
  security_of :: string

text \<open>
  The inner loop: the first line after position \<open>i\<close> whose trimmed text starts with
  \<^verbatim>\<open>SECURITY:\<close>; \<open>None\<close> is the undefined \<^verbatim>\<open>securityLine\<close>.
\<close>

fun findSecurityLine :: "string list \<Rightarrow> string option" where
  "findSecurityLine [] = None"
| "findSecurityLine (l # ls) =
     (if startsWith (trim l) ''SECURITY:'' then Some l else findSecurityLine ls)"

text \<open>
  \<^verbatim>\<open>securityLine ? securityLine.replace("SECURITY:", "").trim() : ""\<close>; the empty
  string is falsy as well.
\<close>

fun securityValue :: "string option \<Rightarrow> string" where
  "securityValue None = []"
| "securityValue (Some l) = (if l = [] then [] else trim (replace l ''SECURITY:'' []))"

text \<open>
  The outer loop over the lines from position \<open>i\<close> on, with the array \<^verbatim>\<open>uniqueSSIDs\<close>
  and the set \<^verbatim>\<open>uniqueSSIDNames\<close> built so far.
\<close>

fun parseLoop :: "string list \<Rightarrow> ssidObject list \<Rightarrow> string set \<Rightarrow> ssidObject list" where
  "parseLoop [] uniqueSSIDs uniqueSSIDNames = uniqueSSIDs"
| "parseLoop (line # rest) uniqueSSIDs uniqueSSIDNames =
     (if startsWith (trim line) ''SSID:'' then
        (let name = trim (replace line ''SSID:'' []);
             sec = securityValue (findSecurityLine rest)
         in if name \<notin> uniqueSSIDNames \<and> name \<noteq> [] then
              parseLoop rest (uniqueSSIDs @ [\<lparr>ssid_of = name, security_of = sec\<rparr>])
                (insert name uniqueSSIDNames)
            else parseLoop rest uniqueSSIDs uniqueSSIDNames)
      else parseLoop rest uniqueSSIDs uniqueSSIDNames)"

definition parseWiFiScanResults :: "string \<Rightarrow> ssidObject list" where
  "parseWiFiScanResults inputString = parseLoop (split_char inputString (CHR 0x0A)) [] {}"


section \<open>Concrete runs\<close>

text \<open>
  The state of a fresh process: \<^verbatim>\<open>lastConnectionSSID\<close> is declared without a value, no
  command has run, and the settings store has the host of the default configuration.
\<close>

definition state0 :: state where
  "state0 = \<lparr>lastConnectionSSID = None,
             store = (\<lambda>k. if k = ''host'' then Some ''app.pintomind.com'' else None),
             trace = [], pending = []\<rparr>"

text \<open>A stand-in for \<^verbatim>\<open>quote\<close> in concrete runs: the arguments separated by spaces.\<close>

fun quote0 :: quote where
  "quote0 [] = []"
| "quote0 [a] = template_value a"
| "quote0 (a # b # as) = template_value a @ '' '' @ quote0 (b # as)"


section \<open>Notions used in the statements\<close>

text \<open>
  The result of the \<open>i\<close>-th poll (counting from 0) of a run of
  \<^verbatim>\<open>waitForActiveConnection\<close> that starts in state \<open>s\<close>; the number of polls a run
  makes is the number of commands it starts.
\<close>

definition polled :: "quote \<Rightarrow> env \<Rightarrow> string \<Rightarrow> state \<Rightarrow> nat \<Rightarrow> CommandResult" where
  "polled quote env name s i =
     commandResult None (env (issued s + i) (connectionStateCommand quote name))"

text \<open>A poll that takes the last \<^verbatim>\<open>else\<close> branch of the loop: none of the three tests holds.\<close>

definition unrecognized :: "CommandResult \<Rightarrow> bool" where
  "unrecognized r =
     (\<not> (success r \<and> stdout_includes r ''activated'')
      \<and> \<not> (success r \<and> stdout_includes r ''activating'')
      \<and> \<not> (success r \<and> stdout_includes r ''deactivated''))"

text \<open>Two polls that report \<^verbatim>\<open>activating\<close>, then \<^verbatim>\<open>unknown\<close> for ever.\<close>

definition env_regress :: env where
  "env_regress n c = (if n < 2 then Resolved ''activating'' [] else Resolved ''unknown'' [])"


text \<open>
  The result of the \<open>i\<close>-th probe (counting from 0) of a run of
  \<^verbatim>\<open>attemptServerConnection\<close> that starts in state \<open>s\<close>.
\<close>

definition probed :: "env \<Rightarrow> state \<Rightarrow> nat \<Rightarrow> CommandResult" where
  "probed env s i =
     commandResult (Some ''server connection'')
       (env (issued s + i) (probeCommand (store s ''host'')))"

text \<open>Nineteen probes that print 0, then probes that print 1; and probes that always print 0.\<close>

definition env_late :: env where
  "env_late n c = (if n < 19 then Resolved (''0'' @ [CHR 0x0A]) [] else Resolved (''1'' @ [CHR 0x0A]) [])"

definition env_never :: env where
  "env_never n c = Resolved (''0'' @ [CHR 0x0A]) []"


text \<open>
  The lookup of the UUID and the change of the DNS succeed, the command that disables the
  automatic DNS fails; and an environment in which every command fails.
\<close>

definition env_dns :: env where
  "env_dns n c =
     (if n = 0 then Resolved (''6a1f-uuid'' @ [CHR 0x0A]) []
      else if n = 2 then Rejected (ExecError ''Command failed'')
      else Resolved [] [])"

definition env_down :: env where
  "env_down n c = Rejected (ExecError ''Command failed'')"


text \<open>
  A scan with the network Home twice (with different security), a line with an empty SSID
  and an open network.
\<close>

definition scan_example :: string where
  "scan_example =
     ''SSID:Home\<newline>SECURITY:WPA2\<newline>SSID:\<newline>SECURITY:\<newline>SSID:Cafe\<newline>SECURITY:\<newline>  SSID: Home \<newline>SECURITY:WEP''"

text \<open>
  The scan as the specification describes it: a line with the SSID marker opens a record;
  the next following line with the security marker, not necessarily adjacent, supplies the
  security, which is empty if there is none. \<open>scanRecords\<close> lists the records of all SSID
  lines in scan order, before empty names and duplicates are dropped.
\<close>

definition isSSIDLine :: "string \<Rightarrow> bool" where
  "isSSIDLine l = startsWith (trim l) ''SSID:''"

definition isSecurityLine :: "string \<Rightarrow> bool" where
  "isSecurityLine l = startsWith (trim l) ''SECURITY:''"

fun scanRecords :: "string list \<Rightarrow> (string \<times> string) list" where
  "scanRecords [] = []"
| "scanRecords (l # ls) =
     (if isSSIDLine l then
        (trim (replace l ''SSID:'' []),
         (case find isSecurityLine ls of
            None \<Rightarrow> []
          | Some sl \<Rightarrow> trim (replace sl ''SECURITY:'' []))) # scanRecords ls
      else scanRecords ls)"

text \<open>The non-empty SSIDs of a scan, in scan order, with their repetitions.\<close>

definition ssidNames :: "string \<Rightarrow> string list" where
  "ssidNames inputString =
     filter (\<lambda>n. n \<noteq> []) (map fst (scanRecords (split_char inputString (CHR 0x0A))))"

text \<open>A list without the later repetitions of its elements: the first occurrence of each stays, in order.\<close>

definition first_occurrences :: "'a list \<Rightarrow> 'a list" where
  "first_occurrences xs = rev (remdups (rev xs))"


text \<open>
  The commands that open one of the three ways to connect are the ones with the type
  tags \<^verbatim>\<open>Network connection\<close> (hidden network), \<^verbatim>\<open>WPA network connection\<close> and
  \<^verbatim>\<open>Unsecure network connection\<close>.
\<close>

fun is_connect_event :: "event \<Rightarrow> bool" where
  "is_connect_event (Executed c (Some t)) =
     (t = ''Network connection'' \<or> t = ''WPA network connection''
      \<or> t = ''Unsecure network connection'')"
| "is_connect_event e = False"

text \<open>
  The command that the dispatch policy of the specification selects for a request: the
  hidden flag first, then WPA security with a non-empty password, otherwise the open
  network.
\<close>

definition connectCommand :: "quote \<Rightarrow> connection_data \<Rightarrow> event" where
  "connectCommand quote data =
     (if hidden_flag (options data) then
        Executed (quote (addProfileArgs ''conn'' (ssid data) (password data)))
          (Some ''Network connection'')
      else if str_includes (or_empty (security data)) ''WPA'' \<and> truthy (password data) then
        Executed (quote (addProfileArgs ''connection'' (ssid data) (password data)))
          (Some ''WPA network connection'')
      else
        Executed (quote (map Some [''nmcli'', ''device'', ''wifi'', ''connect'', ssid data]))
          (Some ''Unsecure network connection''))"

text \<open>
  \<open>adds s s' ces\<close>: the trace of \<open>s'\<close> extends the trace of \<open>s\<close>, and \<open>ces\<close> are the
  connect commands among the new events, in order.
\<close>

definition adds :: "state \<Rightarrow> state \<Rightarrow> event list \<Rightarrow> bool" where
  "adds s s' ces = (\<exists>rest. trace s' = trace s @ rest \<and> filter is_connect_event rest = ces)"

text \<open>
  The two halves of \<^verbatim>\<open>connectToNetwork\<close>: the state after the announcement, the deletion
  of the previous profile and the recording of the new SSID; and the dispatch.
\<close>

definition prepared :: "quote \<Rightarrow> env \<Rightarrow> connection_data \<Rightarrow> state \<Rightarrow> state" where
  "prepared quote env data s =
     (let s1 = s\<lparr>trace := trace s @ [Emitted ''is_connecting'' NoPayload]\<rparr>;
          s2 = (case lastConnectionSSID s1 of
                  None \<Rightarrow> s1
                | Some previous \<Rightarrow> snd (deleteConnectionBySSID quote env previous s1))
      in s2\<lparr>lastConnectionSSID := Some (ssid data),
            trace := trace s2 @ [Assigned (Some (ssid data))]\<rparr>)"

definition dispatched ::
  "quote \<Rightarrow> env \<Rightarrow> connection_data \<Rightarrow> state \<Rightarrow> (js_exn + js_value) \<times> state" where
  "dispatched quote env data s3 =
     (if hidden_flag (options data) then
        connectToHiddenNetwork quote env (ssid data) (password data) s3
      else if str_includes (or_empty (security data)) ''WPA'' \<and> truthy (password data)
      then connectToWPANetwork quote env (ssid data) (password data) s3
      else connectToUnsecureNetwork quote env (ssid data) s3)"

text \<open>Requests for the three ways to connect (the last one names WPA security but has no password), and a state with a previously attempted SSID.\<close>

definition data_hidden :: connection_data where
  "data_hidden = \<lparr>ssid = ''Lab'', password = Some ''pw12345678'', security = Some ''WPA2'',
                  options = Some \<lparr>hidden = True\<rparr>\<rparr>"

definition data_wpa :: connection_data where
  "data_wpa = \<lparr>ssid = ''Home'', password = Some ''secret123'', security = Some ''WPA2'',
               options = None\<rparr>"

definition data_open :: connection_data where
  "data_open = \<lparr>ssid = ''Cafe'', password = None, security = Some ''WPA2'', options = None\<rparr>"



section \<open>Facts about the string primitives and executeCommand\<close>

lemma str_includes_prefix: "str_includes (p @ b) p"
proof (cases "p @ b")
  case Nil
  then show ?thesis by simp
next
  case (Cons a l)
  have "startsWith (p @ b) p" by (simp add: startsWith_def)
  then have "startsWith (a # l) p" by (simp add: Cons)
  then have "str_includes (a # l) p" by simp
  then show ?thesis by (simp add: Cons)
qed

lemma str_includes_append: "str_includes (a @ p @ b) p"
  by (induction a) (auto simp: str_includes_prefix)

lemma str_includes_iff: "str_includes s p \<longleftrightarrow> (\<exists>a b. s = a @ p @ b)"
proof
  show "str_includes s p \<Longrightarrow> \<exists>a b. s = a @ p @ b"
  proof (induction s)
    case Nil
    then show ?case by simp
  next
    case (Cons c cs)
    show ?case
    proof (cases "startsWith (c # cs) p")
      case True
      then have "c # cs = [] @ p @ drop (length p) (c # cs)"
        by (metis append_Nil append_take_drop_id startsWith_def)
      then show ?thesis by blast
    next
      case False
      with Cons obtain a b where "cs = a @ p @ b" by auto
      then have "c # cs = (c # a) @ p @ b" by simp
      then show ?thesis by blast
    qed
  qed
next
  show "\<exists>a b. s = a @ p @ b \<Longrightarrow> str_includes s p"
    using str_includes_append by auto
qed

text \<open>Every text that contains \<^verbatim>\<open>deactivated\<close> contains \<^verbatim>\<open>activated\<close>.\<close>

lemma deactivated_includes_activated:
  assumes "str_includes s ''deactivated''"
  shows "str_includes s ''activated''"
proof -
  from assms obtain a b where "s = a @ ''deactivated'' @ b"
    using str_includes_iff by blast
  then have "s = (a @ ''de'') @ ''activated'' @ b" by simp
  then show ?thesis using str_includes_append by metis
qed

lemma issued_executeCommand: "issued (snd (executeCommand env c t s)) = Suc (issued s)"
  by (simp add: executeCommand_def issued_def Let_def split: exec_outcome.splits)

lemma fst_executeCommand: "fst (executeCommand env c t s) = commandResult t (env (issued s) c)"
  by (simp add: executeCommand_def Let_def split: exec_outcome.splits)


section \<open>executeCommand always returns a result\<close>

text \<open>
  Claim C9. \<^verbatim>\<open>executeCommand\<close> returns a result for every command and every way the
  command can end, and never throws: when the command resolves, \<^verbatim>\<open>success\<close> is true and
  \<^verbatim>\<open>stdout\<close> and \<^verbatim>\<open>stderr\<close> are the trimmed outputs; when it rejects, \<^verbatim>\<open>success\<close> is
  false, both outputs are null and \<^verbatim>\<open>error\<close> is the rejection. So a result with
  \<^verbatim>\<open>success == false\<close> has a non-null \<^verbatim>\<open>error\<close>.
\<close>

theorem executeCommand_total_result:
  "\<exists>r s'. executeCommand env command typ s = (r, s')
     \<and> type r = typ
     \<and> (\<forall>out err. env (issued s) command = Resolved out err \<longrightarrow>
           success r \<and> stdout r = Some (trim out) \<and> stderr r = Some (trim err))
     \<and> (\<forall>e. env (issued s) command = Rejected e \<longrightarrow>
           \<not> success r \<and> stdout r = None \<and> stderr r = None \<and> error r = Some e)
     \<and> (success r = False \<longrightarrow> error r \<noteq> None)"
  by (cases "env (issued s) command") (simp_all add: executeCommand_def Let_def)

theorem executeCommand_total_result_witness:
  "\<not> success (fst (executeCommand (\<lambda>n c. Rejected (ExecError ''spawn failed'')) ''ls'' None state0))
   \<and> error (fst (executeCommand (\<lambda>n c. Rejected (ExecError ''spawn failed'')) ''ls'' None state0))
       = Some (ExecError ''spawn failed'')
   \<and> stdout (fst (executeCommand (\<lambda>n c. Resolved ''  a b  '' []) ''ls'' None state0))
       = Some ''a b''"
  using executeCommand_total_result
          [of "\<lambda>n c. Rejected (ExecError ''spawn failed'')" "''ls''" None state0]
        executeCommand_total_result
          [of "\<lambda>n c. Resolved ''  a b  '' []" "''ls''" None state0]
  by (auto simp: trim_def isWhiteSpace_def)


section \<open>waitForActiveConnection\<close>

declare waitForActiveConnection_loop.simps [simp del]

lemma executeCommand_cases:
  obtains s1 where "executeCommand env c t s = (commandResult t (env (issued s) c), s1)"
    and "issued s1 = Suc (issued s)"
  by (metis fst_executeCommand issued_executeCommand prod.collapse)

lemma wait_loop_bound:
  "issued (snd (waitForActiveConnection_loop env cmd a cso lst s)) \<le> issued s + (75 - a)"
proof (induction env cmd a cso lst s rule: waitForActiveConnection_loop.induct)
  case (1 env cmd a cso lst s)
  obtain s1 where ex: "executeCommand env cmd None s = (commandResult None (env (issued s) cmd), s1)"
    and iss: "issued s1 = Suc (issued s)"
    by (rule executeCommand_cases)
  let ?cs = "commandResult None (env (issued s) cmd)"
  show ?case
  proof (cases "a < 75")
    case False
    then show ?thesis
      by (subst waitForActiveConnection_loop.simps) (simp split: option.splits)
  next
    case True
    note IH1 = "1.IH"(1)[OF True ex[symmetric]]
    note IH2 = "1.IH"(2)[OF True ex[symmetric]]
    show ?thesis
      using True iss IH1 IH2
      by (subst waitForActiveConnection_loop.simps) (auto simp: ex)
  qed
qed


lemma wait_loop_regress:
  assumes "k < issued (snd (waitForActiveConnection_loop env cmd a cso lst s)) - issued s"
    and "unrecognized (commandResult None (env (issued s + k) cmd))"
    and "lst = Some ''activating''
         \<or> (\<exists>j<k. success (commandResult None (env (issued s + j) cmd))
                   \<and> stdout_includes (commandResult None (env (issued s + j) cmd)) ''activating'')"
  shows "fst (waitForActiveConnection_loop env cmd a cso lst s) =
           Inr (Obj ((commandResult None (env (issued s + k) cmd))
                 \<lparr>success := False,
                  stderr := Some ''Operation went from activating to null. Most likely wrong password'',
                  type := Some ''802-11-wireless-security.psk''\<rparr>))
         \<and> issued (snd (waitForActiveConnection_loop env cmd a cso lst s)) = issued s + k + 1"
  using assms
proof (induction env cmd a cso lst s arbitrary: k rule: waitForActiveConnection_loop.induct)
  case (1 env cmd a cso lst s)
  obtain s1 where ex: "executeCommand env cmd None s = (commandResult None (env (issued s) cmd), s1)"
    and iss: "issued s1 = Suc (issued s)"
    by (rule executeCommand_cases)
  let ?cs = "commandResult None (env (issued s) cmd)"
  let ?L = "waitForActiveConnection_loop env cmd a cso lst s"
  have a75: "a < 75"
  proof (rule ccontr)
    assume "\<not> a < 75"
    then have "snd ?L = s"
      by (subst waitForActiveConnection_loop.simps) (simp split: option.splits)
    with "1.prems"(1) show False by simp
  qed
  note IH1 = "1.IH"(1)[OF a75 ex[symmetric]]
  note IH2 = "1.IH"(2)[OF a75 ex[symmetric]]
  consider (activated) "success ?cs \<and> stdout_includes ?cs ''activated''"
    | (activating) "\<not> (success ?cs \<and> stdout_includes ?cs ''activated'')"
        "success ?cs \<and> stdout_includes ?cs ''activating''"
    | (deactivated) "\<not> (success ?cs \<and> stdout_includes ?cs ''activated'')"
        "\<not> (success ?cs \<and> stdout_includes ?cs ''activating'')"
        "success ?cs \<and> stdout_includes ?cs ''deactivated''"
    | (regress) "unrecognized ?cs" "lst = Some ''activating''"
    | (other) "unrecognized ?cs" "lst \<noteq> Some ''activating''"
    unfolding unrecognized_def by blast
  then show ?case
  proof cases
    case activated
    then have L: "?L = (Inr (Obj ?cs), s1)"
      using a75 by (subst waitForActiveConnection_loop.simps) (simp add: ex)
    with "1.prems"(1) iss have "k = 0" by simp
    with "1.prems"(2) activated show ?thesis by (simp add: unrecognized_def)
  next
    case activating
    let ?R = "waitForActiveConnection_loop env cmd (a + 1) (Some ?cs) (Some ''activating'') s1"
    have L: "?L = ?R"
      using a75 activating by (subst waitForActiveConnection_loop.simps) (simp add: ex)
    have "k \<noteq> 0"
    proof
      assume "k = 0"
      with "1.prems"(2) have "unrecognized ?cs" by simp
      with activating(2) show False by (simp add: unrecognized_def)
    qed
    then obtain k' where k: "k = Suc k'" by (cases k) auto
    have p1: "k' < issued (snd ?R) - issued s1" using "1.prems"(1) L iss k by simp
    have p2: "unrecognized (commandResult None (env (issued s1 + k') cmd))"
      using "1.prems"(2) iss k by simp
    from IH1[OF activating(1) activating(2) p1 p2] show ?thesis
      by (simp add: L iss k)
  next
    case deactivated
    then have L: "?L = (Inr JsFalse, s1)"
      using a75 by (subst waitForActiveConnection_loop.simps) (simp add: ex)
    with "1.prems"(1) iss have "k = 0" by simp
    with "1.prems"(2) deactivated show ?thesis by (simp add: unrecognized_def)
  next
    case regress
    have n1: "\<not> (success ?cs \<and> stdout_includes ?cs ''activated'')"
      and n2: "\<not> (success ?cs \<and> stdout_includes ?cs ''activating'')"
      and n3: "\<not> (success ?cs \<and> stdout_includes ?cs ''deactivated'')"
      using regress(1) by (auto simp: unrecognized_def)
    have L: "?L = (Inr (Obj (?cs\<lparr>success := False,
                  stderr := Some ''Operation went from activating to null. Most likely wrong password'',
                  type := Some ''802-11-wireless-security.psk''\<rparr>)), s1)"
      using a75 n1 n2 n3 regress(2)
      by (subst waitForActiveConnection_loop.simps) (auto simp add: ex)
    with "1.prems"(1) iss have "k = 0" by simp
    then show ?thesis by (simp add: L iss)
  next
    case other
    let ?R = "waitForActiveConnection_loop env cmd (a + 1) (Some ?cs) lst s1"
    have n1: "\<not> (success ?cs \<and> stdout_includes ?cs ''activated'')"
      and n2: "\<not> (success ?cs \<and> stdout_includes ?cs ''activating'')"
      and n3: "\<not> (success ?cs \<and> stdout_includes ?cs ''deactivated'')"
      using other(1) by (auto simp: unrecognized_def)
    have L: "?L = ?R"
      using a75 n1 n2 n3 other(2)
      by (subst waitForActiveConnection_loop.simps) (auto simp add: ex)
    from "1.prems"(3) other(2) obtain j where j: "j < k"
      "success (commandResult None (env (issued s + j) cmd))
       \<and> stdout_includes (commandResult None (env (issued s + j) cmd)) ''activating''"
      by blast
    have "j \<noteq> 0"
    proof
      assume "j = 0"
      with j(2) have "success ?cs \<and> stdout_includes ?cs ''activating''" by simp
      with other(1) show False by (simp add: unrecognized_def)
    qed
    then obtain j' where j': "j = Suc j'" by (cases j) auto
    then obtain k' where k: "k = Suc k'" using j(1) by (cases k) auto
    have p1: "k' < issued (snd ?R) - issued s1" using "1.prems"(1) L iss k by simp
    have p2: "unrecognized (commandResult None (env (issued s1 + k') cmd))"
      using "1.prems"(2) iss k by simp
    have p3: "lst = Some ''activating''
         \<or> (\<exists>j<k'. success (commandResult None (env (issued s1 + j) cmd))
                   \<and> stdout_includes (commandResult None (env (issued s1 + j) cmd)) ''activating'')"
      using j j' k iss by auto
    from IH2[OF n1 n2 n3 other(2) p1 p2 p3] show ?thesis
      by (simp add: L iss k)
  qed
qed


lemma stdout_deactivated_activated:
  "stdout_includes r ''deactivated'' \<Longrightarrow> stdout_includes r ''activated''"
  by (auto simp: stdout_includes_def split: option.splits
           intro: deactivated_includes_activated)

lemma wait_loop_exhaust:
  assumes "a < 75 \<or> cso = Some c0"
    and "\<forall>i < 75 - a.
           \<not> (success (commandResult None (env (issued s + i) cmd))
              \<and> stdout_includes (commandResult None (env (issued s + i) cmd)) ''activated'')
           \<and> (unrecognized (commandResult None (env (issued s + i) cmd)) \<longrightarrow>
                lst \<noteq> Some ''activating''
                \<and> (\<forall>j<i. \<not> (success (commandResult None (env (issued s + j) cmd))
                     \<and> stdout_includes (commandResult None (env (issued s + j) cmd))
                          ''activating'')))"
  shows "fst (waitForActiveConnection_loop env cmd a cso lst s) =
           Inr (Obj ((if a < 75 then commandResult None (env (issued s + (74 - a)) cmd) else c0)
                 \<lparr>success := False,
                  stderr := Some ''Exceeded maximum attempts. Operation failed.''\<rparr>))
         \<and> issued (snd (waitForActiveConnection_loop env cmd a cso lst s))
             = issued s + (75 - a)"
  using assms
proof (induction env cmd a cso lst s arbitrary: c0 rule: waitForActiveConnection_loop.induct)
  case (1 env cmd a cso lst s)
  obtain s1 where ex: "executeCommand env cmd None s = (commandResult None (env (issued s) cmd), s1)"
    and iss: "issued s1 = Suc (issued s)"
    by (rule executeCommand_cases)
  let ?O = "\<lambda>i. commandResult None (env (issued s + i) cmd)"
  let ?cs = "commandResult None (env (issued s) cmd)"
  let ?L = "waitForActiveConnection_loop env cmd a cso lst s"
  show ?case
  proof (cases "a < 75")
    case False
    with "1.prems"(1) have "cso = Some c0" by simp
    with False show ?thesis
      by (subst (1 2) waitForActiveConnection_loop.simps) simp
  next
    case True
    note IH1 = "1.IH"(1)[OF True ex[symmetric]]
    note IH2 = "1.IH"(2)[OF True ex[symmetric]]
    from "1.prems"(2) True have h0:
      "\<not> (success ?cs \<and> stdout_includes ?cs ''activated'')"
      "unrecognized ?cs \<longrightarrow> lst \<noteq> Some ''activating''"
      by (auto dest: spec[of _ 0])
    have n3: "\<not> (success ?cs \<and> stdout_includes ?cs ''deactivated'')"
      using h0(1) stdout_deactivated_activated by blast
    have pre1: "a + 1 < 75 \<or> Some ?cs = Some ?cs" by simp
    have res: "(if a + 1 < 75 then commandResult None (env (issued s1 + (74 - (a + 1))) cmd)
                else ?cs) = commandResult None (env (issued s + (74 - a)) cmd)"
    proof (cases "a + 1 < 75")
      case True
      then have "issued s1 + (74 - (a + 1)) = issued s + (74 - a)" using iss by simp
      with True show ?thesis by simp
    next
      case False
      with \<open>a < 75\<close> have "a = 74" by simp
      then show ?thesis by simp
    qed
    show ?thesis
    proof (cases "success ?cs \<and> stdout_includes ?cs ''activating''")
      case activating: True
      let ?R = "waitForActiveConnection_loop env cmd (a + 1) (Some ?cs) (Some ''activating'') s1"
      have L: "?L = ?R"
        using True h0(1) activating
        by (subst waitForActiveConnection_loop.simps) (auto simp add: ex)
      have hyp: "\<forall>i < 75 - (a + 1).
           \<not> (success (commandResult None (env (issued s1 + i) cmd))
              \<and> stdout_includes (commandResult None (env (issued s1 + i) cmd)) ''activated'')
           \<and> (unrecognized (commandResult None (env (issued s1 + i) cmd)) \<longrightarrow>
                Some ''activating'' \<noteq> Some ''activating''
                \<and> (\<forall>j<i. \<not> (success (commandResult None (env (issued s1 + j) cmd))
                     \<and> stdout_includes (commandResult None (env (issued s1 + j) cmd))
                          ''activating'')))"
      proof (intro allI impI)
        fix i assume i: "i < 75 - (a + 1)"
        then have "Suc i < 75 - a" by simp
        with "1.prems"(2) have
          "\<not> (success (?O (Suc i)) \<and> stdout_includes (?O (Suc i)) ''activated'')
           \<and> (unrecognized (?O (Suc i)) \<longrightarrow>
                lst \<noteq> Some ''activating''
                \<and> (\<forall>j<Suc i. \<not> (success (?O j) \<and> stdout_includes (?O j) ''activating'')))"
          by blast
        moreover have "\<not> (\<forall>j<Suc i. \<not> (success (?O j) \<and> stdout_includes (?O j) ''activating''))"
          using activating by (auto intro: exI[of _ 0])
        ultimately show
          "\<not> (success (commandResult None (env (issued s1 + i) cmd))
              \<and> stdout_includes (commandResult None (env (issued s1 + i) cmd)) ''activated'')
           \<and> (unrecognized (commandResult None (env (issued s1 + i) cmd)) \<longrightarrow>
                Some ''activating'' \<noteq> Some ''activating''
                \<and> (\<forall>j<i. \<not> (success (commandResult None (env (issued s1 + j) cmd))
                     \<and> stdout_includes (commandResult None (env (issued s1 + j) cmd))
                          ''activating'')))"
          by (simp add: iss) blast
      qed
      from IH1[OF h0(1) activating pre1 hyp] res True iss show ?thesis
        by (simp add: L)
    next
      case other: False
      then have unrec: "unrecognized ?cs" using h0(1) n3 by (auto simp: unrecognized_def)
      with h0(2) have lst: "lst \<noteq> Some ''activating''" by simp
      let ?R = "waitForActiveConnection_loop env cmd (a + 1) (Some ?cs) lst s1"
      have L: "?L = ?R"
        using True h0(1) other n3 lst
        by (subst waitForActiveConnection_loop.simps) (auto simp add: ex)
      have hyp: "\<forall>i < 75 - (a + 1).
           \<not> (success (commandResult None (env (issued s1 + i) cmd))
              \<and> stdout_includes (commandResult None (env (issued s1 + i) cmd)) ''activated'')
           \<and> (unrecognized (commandResult None (env (issued s1 + i) cmd)) \<longrightarrow>
                lst \<noteq> Some ''activating''
                \<and> (\<forall>j<i. \<not> (success (commandResult None (env (issued s1 + j) cmd))
                     \<and> stdout_includes (commandResult None (env (issued s1 + j) cmd))
                          ''activating'')))"
      proof (intro allI impI)
        fix i assume i: "i < 75 - (a + 1)"
        then have "Suc i < 75 - a" by simp
        with "1.prems"(2) have
          "\<not> (success (?O (Suc i)) \<and> stdout_includes (?O (Suc i)) ''activated'')
           \<and> (unrecognized (?O (Suc i)) \<longrightarrow>
                lst \<noteq> Some ''activating''
                \<and> (\<forall>j<Suc i. \<not> (success (?O j) \<and> stdout_includes (?O j) ''activating'')))"
          by blast
        then show
          "\<not> (success (commandResult None (env (issued s1 + i) cmd))
              \<and> stdout_includes (commandResult None (env (issued s1 + i) cmd)) ''activated'')
           \<and> (unrecognized (commandResult None (env (issued s1 + i) cmd)) \<longrightarrow>
                lst \<noteq> Some ''activating''
                \<and> (\<forall>j<i. \<not> (success (commandResult None (env (issued s1 + j) cmd))
                     \<and> stdout_includes (commandResult None (env (issued s1 + j) cmd))
                          ''activating'')))"
          using lst by (auto simp add: iss)
      qed
      from IH2[OF h0(1) other n3 lst pre1 hyp] res True iss show ?thesis
        by (simp add: L)
    qed
  qed
qed


text \<open>
  Claim C1 says that a first poll whose output contains \<^verbatim>\<open>deactivated\<close> makes
  \<^verbatim>\<open>waitForActiveConnection\<close> fail at once with the message
  \<^verbatim>\<open>Connection state deactivating\<close>. The source tests for \<^verbatim>\<open>activated\<close> first, and
  \<^verbatim>\<open>deactivated\<close> contains \<^verbatim>\<open>activated\<close>: such a poll ends the run at once, after that
  one command, but with the poll's own result, whose \<^verbatim>\<open>success\<close> is true; the branch for
  \<^verbatim>\<open>deactivated\<close> is never reached.
\<close>

theorem waitForActiveConnection_deactivated_returns_success:
  assumes "env (issued s) (connectionStateCommand quote name) = Resolved out err"
    and "str_includes (trim out) ''deactivated''"
  shows "waitForActiveConnection quote env name s =
           (Inr (Obj \<lparr>type = None, success = True, stdout = Some (trim out),
                      stderr = Some (trim err), error = None\<rparr>),
            s\<lparr>trace := trace s @ [Executed (connectionStateCommand quote name) None]\<rparr>)"
proof -
  have "str_includes (trim out) ''activated''"
    using assms(2) by (rule deactivated_includes_activated)
  then show ?thesis
    unfolding waitForActiveConnection_def
    by (subst waitForActiveConnection_loop.simps)
       (simp add: executeCommand_def assms(1) stdout_includes_def)
qed

theorem waitForActiveConnection_deactivated_returns_success_witness:
  "fst (waitForActiveConnection quote0 (\<lambda>n c. Resolved ''deactivated'' []) ''Home'' state0) =
     Inr (Obj \<lparr>type = None, success = True, stdout = Some ''deactivated'', stderr = Some [],
               error = None\<rparr>)"
  using waitForActiveConnection_deactivated_returns_success
          [of "\<lambda>n c. Resolved ''deactivated'' []" state0 quote0 "''Home''" "''deactivated''" "[]"]
  by (simp add: trim_def isWhiteSpace_def startsWith_def)

text \<open>
  Claim C3. In a run of \<^verbatim>\<open>waitForActiveConnection\<close> in which poll \<open>j\<close> reports a state
  containing \<^verbatim>\<open>activating\<close> and a later poll \<open>k\<close> is made and reports an unrecognized
  state, the run ends at poll \<open>k\<close> with that poll's result turned into a failure whose
  type tag is \<^verbatim>\<open>802-11-wireless-security.psk\<close>. In particular the states activating,
  activating, unknown give such a failure.
\<close>

theorem waitForActiveConnection_regression_psk:
  assumes "j < k"
    and "k < issued (snd (waitForActiveConnection quote env name s)) - issued s"
    and "success (polled quote env name s j)
         \<and> stdout_includes (polled quote env name s j) ''activating''"
    and "unrecognized (polled quote env name s k)"
  shows "fst (waitForActiveConnection quote env name s) =
           Inr (Obj ((polled quote env name s k)
                 \<lparr>success := False,
                  stderr := Some ''Operation went from activating to null. Most likely wrong password'',
                  type := Some ''802-11-wireless-security.psk''\<rparr>))
         \<and> issued (snd (waitForActiveConnection quote env name s)) = issued s + k + 1"
  unfolding waitForActiveConnection_def polled_def
  apply (rule wait_loop_regress)
  using assms unfolding waitForActiveConnection_def polled_def by blast+




lemma run_regress:
  "issued (snd (waitForActiveConnection quote0 env_regress ''Home'' state0)) = 3"
  by code_simp

theorem waitForActiveConnection_regression_psk_witness:
  "fst (waitForActiveConnection quote0 env_regress ''Home'' state0) =
     Inr (Obj \<lparr>type = Some ''802-11-wireless-security.psk'', success = False,
               stdout = Some ''unknown'',
               stderr = Some ''Operation went from activating to null. Most likely wrong password'',
               error = None\<rparr>)"
proof -
  have h1: "(1::nat) < 2" by simp
  have h2: "2 < issued (snd (waitForActiveConnection quote0 env_regress ''Home'' state0))
                - issued state0"
  proof -
    have "issued state0 = 0" by (simp add: issued_def state0_def)
    then show ?thesis by (simp add: run_regress)
  qed
  have h3: "success (polled quote0 env_regress ''Home'' state0 1)
            \<and> stdout_includes (polled quote0 env_regress ''Home'' state0 1) ''activating''"
    by (simp add: polled_def env_regress_def stdout_includes_def trim_def isWhiteSpace_def
          startsWith_def issued_def state0_def)
  have h4: "unrecognized (polled quote0 env_regress ''Home'' state0 2)"
    by (simp add: polled_def env_regress_def unrecognized_def stdout_includes_def trim_def
          isWhiteSpace_def startsWith_def issued_def state0_def)
  show ?thesis
    using waitForActiveConnection_regression_psk [OF h1 h2 h3 h4]
    by (simp add: polled_def env_regress_def trim_def isWhiteSpace_def issued_def state0_def)
qed

text \<open>
  Claim C7. A run of \<^verbatim>\<open>waitForActiveConnection\<close> makes at most 75 polls, whatever the
  polls report. If none of the 75 polls reports \<^verbatim>\<open>activated\<close> or \<^verbatim>\<open>deactivated\<close> and none
  reports an unrecognized state after an earlier \<^verbatim>\<open>activating\<close>, the run makes exactly 75
  polls and returns the last poll's result with \<^verbatim>\<open>success\<close> false and the stderr text
  \<^verbatim>\<open>Exceeded maximum attempts. Operation failed.\<close>
\<close>

theorem waitForActiveConnection_at_most_75_polls:
  "issued (snd (waitForActiveConnection quote env name s)) \<le> issued s + 75
   \<and> ((\<forall>i<75.
          \<not> (success (polled quote env name s i)
             \<and> stdout_includes (polled quote env name s i) ''activated'')
          \<and> \<not> (success (polled quote env name s i)
             \<and> stdout_includes (polled quote env name s i) ''deactivated'')
          \<and> \<not> (unrecognized (polled quote env name s i)
             \<and> (\<exists>j<i. success (polled quote env name s j)
                       \<and> stdout_includes (polled quote env name s j) ''activating'')))
       \<longrightarrow> fst (waitForActiveConnection quote env name s) =
             Inr (Obj ((polled quote env name s 74)
                   \<lparr>success := False,
                    stderr := Some ''Exceeded maximum attempts. Operation failed.''\<rparr>))
           \<and> issued (snd (waitForActiveConnection quote env name s)) = issued s + 75)"
proof (intro conjI impI)
  show "issued (snd (waitForActiveConnection quote env name s)) \<le> issued s + 75"
    using wait_loop_bound [of env "connectionStateCommand quote name" 0 None None s]
    by (simp add: waitForActiveConnection_def)
next
  assume H: "\<forall>i<75.
          \<not> (success (polled quote env name s i)
             \<and> stdout_includes (polled quote env name s i) ''activated'')
          \<and> \<not> (success (polled quote env name s i)
             \<and> stdout_includes (polled quote env name s i) ''deactivated'')
          \<and> \<not> (unrecognized (polled quote env name s i)
             \<and> (\<exists>j<i. success (polled quote env name s j)
                       \<and> stdout_includes (polled quote env name s j) ''activating''))"
  let ?cmd = "connectionStateCommand quote name"
  have pre: "(0::nat) < 75 \<or> (None :: CommandResult option) = Some undefined" by simp
  have hyp: "\<forall>i < 75 - 0.
           \<not> (success (commandResult None (env (issued s + i) ?cmd))
              \<and> stdout_includes (commandResult None (env (issued s + i) ?cmd)) ''activated'')
           \<and> (unrecognized (commandResult None (env (issued s + i) ?cmd)) \<longrightarrow>
                (None :: string option) \<noteq> Some ''activating''
                \<and> (\<forall>j<i. \<not> (success (commandResult None (env (issued s + j) ?cmd))
                     \<and> stdout_includes (commandResult None (env (issued s + j) ?cmd))
                          ''activating'')))"
    using H unfolding polled_def by auto
  from wait_loop_exhaust [where a = 0 and cso = None and lst = None and env = env
         and cmd = "?cmd" and s = s and ?c0.0 = undefined, OF pre hyp]
  show "fst (waitForActiveConnection quote env name s) =
             Inr (Obj ((polled quote env name s 74)
                   \<lparr>success := False,
                    stderr := Some ''Exceeded maximum attempts. Operation failed.''\<rparr>))"
    and "issued (snd (waitForActiveConnection quote env name s)) = issued s + 75"
    by (simp_all add: waitForActiveConnection_def polled_def)
qed

theorem waitForActiveConnection_at_most_75_polls_witness:
  "fst (waitForActiveConnection quote0 (\<lambda>n c. Resolved ''activating'' []) ''Home'' state0) =
     Inr (Obj \<lparr>type = None, success = False, stdout = Some ''activating'',
               stderr = Some ''Exceeded maximum attempts. Operation failed.'', error = None\<rparr>)
   \<and> issued (snd (waitForActiveConnection quote0 (\<lambda>n c. Resolved ''activating'' []) ''Home''
        state0)) = 75"
proof -
  have H: "\<forall>i<75.
          \<not> (success (polled quote0 (\<lambda>n c. Resolved ''activating'' []) ''Home'' state0 i)
             \<and> stdout_includes (polled quote0 (\<lambda>n c. Resolved ''activating'' []) ''Home'' state0 i) ''activated'')
          \<and> \<not> (success (polled quote0 (\<lambda>n c. Resolved ''activating'' []) ''Home'' state0 i)
             \<and> stdout_includes (polled quote0 (\<lambda>n c. Resolved ''activating'' []) ''Home'' state0 i) ''deactivated'')
          \<and> \<not> (unrecognized (polled quote0 (\<lambda>n c. Resolved ''activating'' []) ''Home'' state0 i)
             \<and> (\<exists>j<i. success (polled quote0 (\<lambda>n c. Resolved ''activating'' []) ''Home'' state0 j)
                       \<and> stdout_includes (polled quote0 (\<lambda>n c. Resolved ''activating'' []) ''Home'' state0 j) ''activating''))"
    by (simp add: polled_def unrecognized_def stdout_includes_def trim_def isWhiteSpace_def
          startsWith_def)
  show ?thesis
    using waitForActiveConnection_at_most_75_polls
            [of quote0 "\<lambda>n c. Resolved ''activating'' []" "''Home''" state0] H
    by (simp add: polled_def trim_def isWhiteSpace_def issued_def state0_def)
qed


section \<open>attemptServerConnection\<close>

declare attemptServerConnection_loop.simps [simp del]

lemma store_executeCommand: "store (snd (executeCommand env c t s)) = store s"
  by (simp add: executeCommand_def Let_def split: exec_outcome.splits)

lemma checkConnectionToServer_cases:
  obtains s1 where
    "checkConnectionToServer env s =
       (commandResult (Some ''server connection'')
          (env (issued s) (probeCommand (store s ''host''))), s1)"
    and "issued s1 = Suc (issued s)" and "store s1 = store s"
proof -
  let ?r = "checkConnectionToServer env s"
  have "fst ?r = commandResult (Some ''server connection'')
          (env (issued s) (probeCommand (store s ''host'')))"
    by (simp add: checkConnectionToServer_def fst_executeCommand)
  moreover have "issued (snd ?r) = Suc (issued s)"
    by (simp add: checkConnectionToServer_def issued_executeCommand)
  moreover have "store (snd ?r) = store s"
    by (simp add: checkConnectionToServer_def store_executeCommand)
  ultimately show thesis using that [of "snd ?r"] by (metis prod.collapse)
qed

lemma attempt_loop_bound:
  "issued (snd (attemptServerConnection_loop env a conn s)) \<le> issued s + (20 - a)"
proof (induction env a conn s rule: attemptServerConnection_loop.induct)
  case (1 env a conn s)
  obtain s1 where ex: "checkConnectionToServer env s =
       (commandResult (Some ''server connection'')
          (env (issued s) (probeCommand (store s ''host''))), s1)"
    and iss: "issued s1 = Suc (issued s)" and st: "store s1 = store s"
    by (rule checkConnectionToServer_cases)
  show ?case
  proof (cases "a < 20")
    case False
    then show ?thesis
      by (subst attemptServerConnection_loop.simps) (simp split: option.splits)
  next
    case True
    note IH = "1.IH"[OF True ex[symmetric]]
    show ?thesis
      using True iss IH
      by (subst attemptServerConnection_loop.simps) (auto simp: ex)
  qed
qed

lemma attempt_loop_first:
  assumes "k < 20 - a"
    and "\<forall>i<k. \<not> serverReached (probed env s i)"
    and "serverReached (probed env s k)"
  shows "fst (attemptServerConnection_loop env a conn s) = Obj (probed env s k)
         \<and> issued (snd (attemptServerConnection_loop env a conn s)) = issued s + k + 1"
  using assms
proof (induction env a conn s arbitrary: k rule: attemptServerConnection_loop.induct)
  case (1 env a conn s)
  obtain s1 where ex: "checkConnectionToServer env s = (probed env s 0, s1)"
    and iss: "issued s1 = Suc (issued s)" and st: "store s1 = store s"
    using checkConnectionToServer_cases [of env s] by (auto simp: probed_def)
  have a20: "a < 20" using "1.prems"(1) by simp
  have shift: "\<And>i. probed env s1 i = probed env s (Suc i)"
    by (simp add: probed_def iss st)
  show ?case
  proof (cases k)
    case 0
    with "1.prems"(3) have "serverReached (probed env s 0)" by simp
    then show ?thesis
      using a20 0 iss
      by (subst (1 2) attemptServerConnection_loop.simps) (simp add: ex serverReached_def)
  next
    case (Suc k')
    with "1.prems"(2) have n0: "\<not> (success (probed env s 0) \<and> stdout (probed env s 0) = Some ''1'')"
      by (auto simp: serverReached_def)
    have L: "attemptServerConnection_loop env a conn s =
             attemptServerConnection_loop env (a + 1) (Some (probed env s 0)) s1"
      using a20 n0 by (subst attemptServerConnection_loop.simps) (auto simp: ex)
    have p1: "k' < 20 - (a + 1)" using "1.prems"(1) Suc by simp
    have p2: "\<forall>i<k'. \<not> serverReached (probed env s1 i)"
      using "1.prems"(2) Suc by (simp add: shift)
    have p3: "serverReached (probed env s1 k')" using "1.prems"(3) Suc by (simp add: shift)
    from "1.IH"[OF a20 ex[symmetric] n0 p1 p2 p3] show ?thesis
      by (simp add: L shift iss Suc)
  qed
qed

lemma attempt_loop_none:
  assumes "a < 20 \<or> conn = Some c0"
    and "\<forall>i<20 - a. \<not> serverReached (probed env s i)"
  shows "fst (attemptServerConnection_loop env a conn s) =
           Obj (if a < 20 then probed env s (19 - a) else c0)
         \<and> issued (snd (attemptServerConnection_loop env a conn s)) = issued s + (20 - a)"
  using assms
proof (induction env a conn s arbitrary: c0 rule: attemptServerConnection_loop.induct)
  case (1 env a conn s)
  obtain s1 where ex: "checkConnectionToServer env s = (probed env s 0, s1)"
    and iss: "issued s1 = Suc (issued s)" and st: "store s1 = store s"
    using checkConnectionToServer_cases [of env s] by (auto simp: probed_def)
  have shift: "\<And>i. probed env s1 i = probed env s (Suc i)"
    by (simp add: probed_def iss st)
  show ?case
  proof (cases "a < 20")
    case False
    with "1.prems"(1) have "conn = Some c0" by simp
    with False show ?thesis
      by (subst (1 2) attemptServerConnection_loop.simps) simp
  next
    case True
    with "1.prems"(2) have n0: "\<not> (success (probed env s 0) \<and> stdout (probed env s 0) = Some ''1'')"
      by (auto simp: serverReached_def)
    have L: "attemptServerConnection_loop env a conn s =
             attemptServerConnection_loop env (a + 1) (Some (probed env s 0)) s1"
      using True n0 by (subst attemptServerConnection_loop.simps) (auto simp: ex)
    have p1: "a + 1 < 20 \<or> Some (probed env s 0) = Some (probed env s 0)" by simp
    have p2: "\<forall>i<20 - (a + 1). \<not> serverReached (probed env s1 i)"
      using "1.prems"(2) by (simp add: shift)
    have res: "(if a + 1 < 20 then probed env s1 (19 - (a + 1)) else probed env s 0)
                 = probed env s (19 - a)"
    proof (cases "a + 1 < 20")
      case True
      then have "Suc (19 - (a + 1)) = 19 - a" by simp
      with True show ?thesis by (simp add: shift)
    next
      case False
      with \<open>a < 20\<close> have "a = 19" by simp
      then show ?thesis by simp
    qed
    from "1.IH"[OF True ex[symmetric] n0 p1 p2] res True show ?thesis
      by (simp add: L iss)
  qed
qed


text \<open>
  Claim C2 says that twenty probes that all print 0 make \<^verbatim>\<open>attemptServerConnection\<close>
  return a failure. Each such probe is a command that ran to its end, so its result has
  \<^verbatim>\<open>success\<close> true and no \<^verbatim>\<open>error\<close>, and the function returns the 20th of them as it is:
  the returned result is not a failing result.
\<close>

theorem attemptServerConnection_twenty_zeros_counterexample:
  "fst (attemptServerConnection env_never state0) =
     Obj \<lparr>type = Some ''server connection'', success = True, stdout = Some ''0'',
          stderr = Some [], error = None\<rparr>
   \<and> get_success (fst (attemptServerConnection env_never state0)) = Inr True"
proof -
  have i0: "issued state0 = 0" by (simp add: issued_def state0_def)
  have never: "\<And>i. probed env_never state0 i =
      \<lparr>type = Some ''server connection'', success = True,
       stdout = Some ''0'', stderr = Some [], error = None\<rparr>"
    by (simp add: probed_def env_never_def i0 trim_def isWhiteSpace_def)
  have h: "\<forall>i<20 - 0. \<not> serverReached (probed env_never state0 i)"
    by (simp add: never serverReached_def)
  have pre: "(0::nat) < 20 \<or> (None :: CommandResult option) = Some undefined" by simp
  from attempt_loop_none [where a = 0 and conn = None and ?c0.0 = undefined
         and env = env_never and s = state0, OF pre h]
  have "fst (attemptServerConnection env_never state0) =
     Obj \<lparr>type = Some ''server connection'', success = True, stdout = Some ''0'',
          stderr = Some [], error = None\<rparr>"
    by (simp add: attemptServerConnection_def never)
  then show ?thesis by simp
qed

text \<open>
  Claim C2, amended. \<^verbatim>\<open>attemptServerConnection\<close> makes at most 20 probes. It stops at the
  first probe that passes the test \<^verbatim>\<open>success && stdout === "1"\<close> (\<open>serverReached\<close>) and
  returns that probe's result; if none of the 20 probes passes, it returns the result of
  the 20th probe unchanged. So the returned result passes the test exactly when one of
  the 20 probes does: nineteen results 0 followed by a 1 give the passing result of the
  20th probe, and twenty results 0 give the result of the 20th probe, which fails the test
  because its \<^verbatim>\<open>stdout\<close> is 0, while its \<^verbatim>\<open>success\<close> field is true.
\<close>

theorem attemptServerConnection_bounded_retry:
  "issued (snd (attemptServerConnection env s)) \<le> issued s + 20
   \<and> (\<forall>k<20. (\<forall>i<k. \<not> serverReached (probed env s i)) \<and> serverReached (probed env s k)
         \<longrightarrow> fst (attemptServerConnection env s) = Obj (probed env s k)
             \<and> issued (snd (attemptServerConnection env s)) = issued s + k + 1)
   \<and> ((\<forall>i<20. \<not> serverReached (probed env s i))
         \<longrightarrow> fst (attemptServerConnection env s) = Obj (probed env s 19)
             \<and> issued (snd (attemptServerConnection env s)) = issued s + 20)
   \<and> (\<exists>r. fst (attemptServerConnection env s) = Obj r
          \<and> (serverReached r \<longleftrightarrow> (\<exists>k<20. serverReached (probed env s k))))"
proof (intro conjI)
  show bound: "issued (snd (attemptServerConnection env s)) \<le> issued s + 20"
    using attempt_loop_bound [of env 0 None s] by (simp add: attemptServerConnection_def)
  show first: "\<forall>k<20. (\<forall>i<k. \<not> serverReached (probed env s i)) \<and> serverReached (probed env s k)
         \<longrightarrow> fst (attemptServerConnection env s) = Obj (probed env s k)
             \<and> issued (snd (attemptServerConnection env s)) = issued s + k + 1"
    using attempt_loop_first [of _ 0 env s None] by (simp add: attemptServerConnection_def)
  show none: "(\<forall>i<20. \<not> serverReached (probed env s i))
         \<longrightarrow> fst (attemptServerConnection env s) = Obj (probed env s 19)
             \<and> issued (snd (attemptServerConnection env s)) = issued s + 20"
    using attempt_loop_none [of 0 None undefined env s] by (simp add: attemptServerConnection_def)
  show "\<exists>r. fst (attemptServerConnection env s) = Obj r
          \<and> (serverReached r \<longleftrightarrow> (\<exists>k<20. serverReached (probed env s k)))"
  proof (cases "\<exists>k<20. serverReached (probed env s k)")
    case False
    with none show ?thesis by auto
  next
    case True
    define k where "k = (LEAST k. k < 20 \<and> serverReached (probed env s k))"
    from True have "\<exists>k. k < 20 \<and> serverReached (probed env s k)" by blast
    then have k: "k < 20 \<and> serverReached (probed env s k)"
      unfolding k_def by (rule LeastI_ex)
    have "\<forall>i<k. \<not> serverReached (probed env s i)"
    proof (intro allI impI)
      fix i assume "i < k"
      then have "\<not> (i < 20 \<and> serverReached (probed env s i))"
        unfolding k_def by (rule not_less_Least)
      with \<open>i < k\<close> k show "\<not> serverReached (probed env s i)" by simp
    qed
    with first k have "fst (attemptServerConnection env s) = Obj (probed env s k)" by blast
    with k True show ?thesis by auto
  qed
qed

theorem attemptServerConnection_bounded_retry_witness:
  "fst (attemptServerConnection env_late state0) =
     Obj \<lparr>type = Some ''server connection'', success = True, stdout = Some ''1'',
          stderr = Some [], error = None\<rparr>
   \<and> issued (snd (attemptServerConnection env_late state0)) = 20
   \<and> fst (attemptServerConnection env_never state0) =
     Obj \<lparr>type = Some ''server connection'', success = True, stdout = Some ''0'',
          stderr = Some [], error = None\<rparr>
   \<and> issued (snd (attemptServerConnection env_never state0)) = 20
   \<and> \<not> serverReached \<lparr>type = Some ''server connection'', success = True, stdout = Some ''0'',
          stderr = Some [], error = None\<rparr>"
proof -
  have i0: "issued state0 = 0" by (simp add: issued_def state0_def)
  have late: "\<And>i. probed env_late state0 i =
      \<lparr>type = Some ''server connection'', success = True,
       stdout = Some (if i < 19 then ''0'' else ''1''), stderr = Some [], error = None\<rparr>"
    by (simp add: probed_def env_late_def i0 trim_def isWhiteSpace_def)
  have never: "\<And>i. probed env_never state0 i =
      \<lparr>type = Some ''server connection'', success = True,
       stdout = Some ''0'', stderr = Some [], error = None\<rparr>"
    by (simp add: probed_def env_never_def i0 trim_def isWhiteSpace_def)
  have h1: "(\<forall>i<19. \<not> serverReached (probed env_late state0 i))
            \<and> serverReached (probed env_late state0 19)"
    by (simp add: late serverReached_def)
  have h2: "\<forall>i<20. \<not> serverReached (probed env_never state0 i)"
    by (simp add: never serverReached_def)
  have n19: "(19::nat) < 20" by simp
  note first = attemptServerConnection_bounded_retry
                 [of env_late state0, THEN conjunct2, THEN conjunct1, rule_format, OF n19 h1]
  note none = attemptServerConnection_bounded_retry
                 [of env_never state0, THEN conjunct2, THEN conjunct2, THEN conjunct1,
                  THEN mp, OF h2]
  show ?thesis
    using first none by (simp add: late never i0 serverReached_def)
qed


section \<open>addDNS\<close>

text \<open>
  Claim C6 says that in \<^verbatim>\<open>addDNS\<close> a failed step returns that failure and skips the later
  steps. For the step that sets the DNS the source does so (it tests \<^verbatim>\<open>modifyDNS.success\<close>).
  For the step that disables the automatic DNS it tests the result object itself, which is
  always truthy: when that command fails, the profile is cycled all the same and the
  result of the cycle command is returned, not the failure.
\<close>

theorem addDNS_ignores_failed_disable:
  assumes "env (issued s) activeUUIDCommand = Resolved out err"
    and "env (issued s + 1) (modifyDNSCommand (trim out) dns) = Resolved out1 err1"
    and "env (issued s + 2) (disableAutoDNSCommand (trim out)) = Rejected e"
  shows "fst (addDNS env dns s) =
           Obj (commandResult None (env (issued s + 3) (cycleCommand (trim out))))
         \<and> filter is_Executed (trace (snd (addDNS env dns s))) =
             filter is_Executed (trace s) @
               [Executed activeUUIDCommand None,
                Executed (modifyDNSCommand (trim out) dns) None,
                Executed (disableAutoDNSCommand (trim out)) None,
                Executed (cycleCommand (trim out)) None]"
  using assms
  by (auto simp add: addDNS_def getActiveConnectionUUID_def executeCommand_def issued_def
        object_truthy_def Let_def eval_nat_numeral split: exec_outcome.splits)

theorem addDNS_ignores_failed_disable_witness:
  "fst (addDNS env_dns ''8.8.8.8'' state0) =
     Obj \<lparr>type = None, success = True, stdout = Some [], stderr = Some [], error = None\<rparr>
   \<and> filter is_Executed (trace (snd (addDNS env_dns ''8.8.8.8'' state0))) =
     [Executed activeUUIDCommand None,
      Executed (modifyDNSCommand ''6a1f-uuid'' ''8.8.8.8'') None,
      Executed (disableAutoDNSCommand ''6a1f-uuid'') None,
      Executed (cycleCommand ''6a1f-uuid'') None]
   \<and> \<not> success (commandResult None (env_dns 2 (disableAutoDNSCommand ''6a1f-uuid'')))"
proof -
  have t: "trim (''6a1f-uuid'' @ [CHR 0x0A]) = ''6a1f-uuid''"
    by (simp add: trim_def isWhiteSpace_def)
  have i0: "issued state0 = 0" by (simp add: issued_def state0_def)
  have tr0: "trace state0 = []" by (simp add: state0_def)
  have h1: "env_dns (issued state0) activeUUIDCommand = Resolved (''6a1f-uuid'' @ [CHR 0x0A]) []"
    by (simp add: env_dns_def i0)
  have h2: "env_dns (issued state0 + 1)
              (modifyDNSCommand (trim (''6a1f-uuid'' @ [CHR 0x0A])) ''8.8.8.8'') = Resolved [] []"
    by (simp add: env_dns_def i0)
  have h3: "env_dns (issued state0 + 2)
              (disableAutoDNSCommand (trim (''6a1f-uuid'' @ [CHR 0x0A])))
            = Rejected (ExecError ''Command failed'')"
    by (simp add: env_dns_def i0)
  have c: "commandResult None (env_dns (issued state0 + 3) (cycleCommand ''6a1f-uuid'')) =
     \<lparr>type = None, success = True, stdout = Some [], stderr = Some [], error = None\<rparr>"
    by (simp add: env_dns_def i0 trim_def)
  have d: "\<not> success (commandResult None (env_dns 2 (disableAutoDNSCommand ''6a1f-uuid'')))"
    by (simp add: env_dns_def)
  show ?thesis
    using addDNS_ignores_failed_disable [OF h1 h2 h3, unfolded t c tr0] d
    by simp
qed

text \<open>
  Claim C10. When the lookup of the active connection's UUID fails, \<^verbatim>\<open>addDNS\<close> runs no
  further command and returns nothing (\<^verbatim>\<open>undefined\<close>), not a failing result; the handler of
  \<^verbatim>\<open>connect_to_dns\<close> then throws a TypeError when it reads \<^verbatim>\<open>result.success\<close>, before it
  stores the DNS or sends \<^verbatim>\<open>dns_registred\<close>.
\<close>

theorem addDNS_undefined_when_lookup_fails:
  assumes "env (issued s) activeUUIDCommand = Rejected e"
  shows "addDNS env dns s =
           (Undefined,
            s\<lparr>trace := trace s @ [Executed activeUUIDCommand None, Logged e ''executeCommand'']\<rparr>)
         \<and> connect_to_dns env dns s =
           (Inl TypeError,
            s\<lparr>trace := trace s @ [Sent ''dns_registerering'' NoPayload,
                                   Executed activeUUIDCommand None,
                                   Logged e ''executeCommand'']\<rparr>)"
  using assms
  by (simp add: connect_to_dns_def addDNS_def getActiveConnectionUUID_def executeCommand_def
        issued_def Let_def)

theorem addDNS_undefined_when_lookup_fails_witness:
  "fst (addDNS env_down ''8.8.8.8'' state0) = Undefined
   \<and> fst (connect_to_dns env_down ''8.8.8.8'' state0) = Inl TypeError
   \<and> store (snd (connect_to_dns env_down ''8.8.8.8'' state0)) ''dns'' = None"
  using addDNS_undefined_when_lookup_fails
          [of env_down state0 "ExecError ''Command failed''" "''8.8.8.8''"]
  by (simp add: env_down_def state0_def)


section \<open>parseWiFiScanResults\<close>

lemma first_occurrences_Nil: "first_occurrences [] = []"
  by (simp add: first_occurrences_def)

lemma remdups_snoc: "remdups (ys @ [x]) = remdups (filter (\<lambda>y. y \<noteq> x) ys) @ [x]"
  by (induction ys) auto

lemma first_occurrences_Cons:
  "first_occurrences (x # xs) = x # first_occurrences (filter (\<lambda>y. y \<noteq> x) xs)"
  by (simp add: first_occurrences_def remdups_snoc rev_filter)

lemma set_first_occurrences: "set (first_occurrences xs) = set xs"
  by (simp add: first_occurrences_def)

lemma length_first_occurrences: "length (first_occurrences xs) = card (set xs)"
  by (simp add: first_occurrences_def length_remdups_card_conv)

lemma trim_Nil: "trim [] = []"
  by (simp add: trim_def)

lemma isSecurityLine_nonempty: "isSecurityLine l \<Longrightarrow> l \<noteq> []"
  by (auto simp: isSecurityLine_def trim_def startsWith_def)

lemma findSecurityLine_find: "findSecurityLine ls = find isSecurityLine ls"
  by (induction ls) (simp_all add: isSecurityLine_def)

lemma securityValue_find:
  "securityValue (findSecurityLine ls) =
     (case find isSecurityLine ls of None \<Rightarrow> [] | Some sl \<Rightarrow> trim (replace sl ''SECURITY:'' []))"
proof (cases "find isSecurityLine ls")
  case None
  then show ?thesis by (simp add: findSecurityLine_find)
next
  case (Some sl)
  then have "isSecurityLine sl" by (auto simp: find_Some_iff)
  then have "sl \<noteq> []" by (rule isSecurityLine_nonempty)
  with Some show ?thesis by (simp add: findSecurityLine_find)
qed

lemma parseLoop_acc:
  "parseLoop ls acc seen = acc @ parseLoop ls [] seen"
proof (induction ls arbitrary: acc seen)
  case Nil
  show ?case by simp
next
  case (Cons l ls)
  show ?case
    using Cons.IH [of "acc @ [x]" for x] Cons.IH [of "[x]" for x] Cons.IH [of acc]
    by (simp add: Let_def)
qed

lemma parseLoop_step:
  "parseLoop (l # ls) [] seen =
     (if isSSIDLine l \<and> trim (replace l ''SSID:'' []) \<notin> seen \<and> trim (replace l ''SSID:'' []) \<noteq> []
      then \<lparr>ssid_of = trim (replace l ''SSID:'' []),
            security_of = securityValue (findSecurityLine ls)\<rparr>
           # parseLoop ls [] (insert (trim (replace l ''SSID:'' [])) seen)
      else parseLoop ls [] seen)"
  using parseLoop_acc [of ls "[x]" for x]
  by (simp add: Let_def isSSIDLine_def)

declare parseLoop.simps(2) [simp del]

lemma parseLoop_names:
  "map ssid_of (parseLoop ls [] seen) =
     first_occurrences (filter (\<lambda>n. n \<noteq> [] \<and> n \<notin> seen) (map fst (scanRecords ls)))"
proof (induction ls arbitrary: seen)
  case Nil
  show ?case by (simp add: first_occurrences_Nil)
next
  case (Cons l ls)
  let ?n = "trim (replace l ''SSID:'' [])"
  have eq: "(\<lambda>y. (y \<noteq> [] \<and> y \<notin> seen) \<and> y \<noteq> ?n) = (\<lambda>n. n \<noteq> [] \<and> n \<notin> insert ?n seen)"
    by auto
  show ?case
    by (simp only: parseLoop_step)
       (auto simp add: Cons.IH first_occurrences_Cons eq conj_commute)
qed

lemma parseLoop_fresh:
  assumes "x \<in> set (parseLoop ls [] seen)"
  shows "ssid_of x \<notin> seen \<and> ssid_of x \<noteq> []"
proof -
  from assms have "ssid_of x \<in> set (map ssid_of (parseLoop ls [] seen))" by simp
  then show ?thesis
    by (simp add: parseLoop_names set_first_occurrences)
qed

lemma parseLoop_security:
  assumes "x \<in> set (parseLoop ls [] seen)"
  shows "map_of (scanRecords ls) (ssid_of x) = Some (security_of x)"
  using assms
proof (induction ls arbitrary: seen)
  case Nil
  then show ?case by simp
next
  case (Cons l ls)
  let ?n = "trim (replace l ''SSID:'' [])"
  show ?case
  proof (cases "isSSIDLine l")
    case False
    with Cons show ?thesis by (simp add: parseLoop_step)
  next
    case True
    show ?thesis
    proof (cases "?n \<notin> seen \<and> ?n \<noteq> []")
      case fresh: True
      with Cons.prems True have
        "x = \<lparr>ssid_of = ?n, security_of = securityValue (findSecurityLine ls)\<rparr>
         \<or> x \<in> set (parseLoop ls [] (insert ?n seen))"
        by (simp add: parseLoop_step)
      then show ?thesis
      proof
        assume "x = \<lparr>ssid_of = ?n, security_of = securityValue (findSecurityLine ls)\<rparr>"
        with True show ?thesis by (simp add: securityValue_find)
      next
        assume x: "x \<in> set (parseLoop ls [] (insert ?n seen))"
        then have "ssid_of x \<noteq> ?n" using parseLoop_fresh by blast
        with Cons.IH [OF x] True show ?thesis by simp
      qed
    next
      case old: False
      with Cons.prems True have x: "x \<in> set (parseLoop ls [] seen)"
        by (auto simp add: parseLoop_step)
      then have "ssid_of x \<notin> seen \<and> ssid_of x \<noteq> []" by (rule parseLoop_fresh)
      with old have "ssid_of x \<noteq> ?n" by auto
      with Cons.IH [OF x] True show ?thesis by simp
    qed
  qed
qed

lemma scanRecords_no_ssid:
  "\<forall>l\<in>set ls. \<not> isSSIDLine l \<Longrightarrow> scanRecords ls = []"
  by (induction ls) simp_all

text \<open>
  Claim C8. The SSIDs of the output of \<^verbatim>\<open>parseWiFiScanResults\<close> are the distinct non-empty
  SSIDs of the input in the order of their first occurrence, so the length of the output
  is the number of distinct non-empty SSIDs; the security of each entry is the one of the
  first SSID line with that name; an input without SSID lines, and the empty string, give
  the empty list.
\<close>

theorem parseWiFiScanResults_first_occurrence:
  "map ssid_of (parseWiFiScanResults inputString) = first_occurrences (ssidNames inputString)
   \<and> distinct (map ssid_of (parseWiFiScanResults inputString))
   \<and> length (parseWiFiScanResults inputString) = card (set (ssidNames inputString))
   \<and> (\<forall>x\<in>set (parseWiFiScanResults inputString).
         map_of (scanRecords (split_char inputString (CHR 0x0A))) (ssid_of x)
           = Some (security_of x))
   \<and> ((\<forall>l\<in>set (split_char inputString (CHR 0x0A)). \<not> isSSIDLine l)
         \<longrightarrow> parseWiFiScanResults inputString = [])
   \<and> parseWiFiScanResults [] = []"
proof (intro conjI)
  show names: "map ssid_of (parseWiFiScanResults inputString)
                 = first_occurrences (ssidNames inputString)"
    by (simp add: parseWiFiScanResults_def parseLoop_names ssidNames_def)
  show "distinct (map ssid_of (parseWiFiScanResults inputString))"
    by (simp only: names) (simp add: first_occurrences_def)
  have "length (map ssid_of (parseWiFiScanResults inputString))
          = card (set (ssidNames inputString))"
    by (simp only: names length_first_occurrences)
  then show "length (parseWiFiScanResults inputString) = card (set (ssidNames inputString))"
    by simp
  show "\<forall>x\<in>set (parseWiFiScanResults inputString).
         map_of (scanRecords (split_char inputString (CHR 0x0A))) (ssid_of x)
           = Some (security_of x)"
    by (auto simp add: parseWiFiScanResults_def intro: parseLoop_security)
  show "(\<forall>l\<in>set (split_char inputString (CHR 0x0A)). \<not> isSSIDLine l)
         \<longrightarrow> parseWiFiScanResults inputString = []"
  proof
    assume "\<forall>l\<in>set (split_char inputString (CHR 0x0A)). \<not> isSSIDLine l"
    then have "ssidNames inputString = []"
      by (simp add: ssidNames_def scanRecords_no_ssid)
    with names have "map ssid_of (parseWiFiScanResults inputString) = []"
      by (simp add: first_occurrences_Nil)
    then show "parseWiFiScanResults inputString = []" by simp
  qed
  show "parseWiFiScanResults [] = []"
    by (simp add: parseWiFiScanResults_def parseLoop_step isSSIDLine_def trim_def
          startsWith_def)
qed

lemma scan_example_names: "ssidNames scan_example = [''Home'', ''Cafe'', ''Home'']"
  by code_simp

lemma scan_example_records:
  "scanRecords (split_char scan_example (CHR 0x0A)) =
     [(''Home'', ''WPA2''), ([], []), (''Cafe'', []), (''Home'', ''WEP'')]"
  by code_simp

theorem parseWiFiScanResults_first_occurrence_witness:
  "map ssid_of (parseWiFiScanResults scan_example) = [''Home'', ''Cafe'']
   \<and> map security_of (parseWiFiScanResults scan_example) = [''WPA2'', []]
   \<and> parseWiFiScanResults ''no wifi device'' = []"
proof -
  note T = parseWiFiScanResults_first_occurrence [of scan_example]
  have names: "map ssid_of (parseWiFiScanResults scan_example) = [''Home'', ''Cafe'']"
    using T by (simp add: scan_example_names first_occurrences_def)
  then obtain a b where ab: "parseWiFiScanResults scan_example = [a, b]"
    and a: "ssid_of a = ''Home''" and b: "ssid_of b = ''Cafe''"
    by auto
  from T have sec: "\<forall>x\<in>set (parseWiFiScanResults scan_example).
      map_of [(''Home'', ''WPA2''), ([], []), (''Cafe'', []), (''Home'', ''WEP'')] (ssid_of x)
        = Some (security_of x)"
    unfolding scan_example_records by blast
  have "security_of a = ''WPA2''" and "security_of b = []"
    using sec a b by (simp_all add: ab)
  then have secs: "map security_of (parseWiFiScanResults scan_example) = [''WPA2'', []]"
    by (simp add: ab)
  have "\<forall>l\<in>set (split_char ''no wifi device'' (CHR 0x0A)). \<not> isSSIDLine l"
    by (simp add: isSSIDLine_def trim_def isWhiteSpace_def startsWith_def)
  with parseWiFiScanResults_first_occurrence [of "''no wifi device''"]
  have "parseWiFiScanResults ''no wifi device'' = []" by blast
  with names secs show ?thesis by blast
qed


section \<open>connectToNetwork\<close>

lemma adds_refl: "adds s s []"
  by (simp add: adds_def)

lemma adds_trans: "adds s s1 a \<Longrightarrow> adds s1 s2 b \<Longrightarrow> adds s s2 (a @ b)"
  unfolding adds_def by (metis append.assoc filter_append)

lemma adds_then: "adds s s1 [] \<Longrightarrow> adds s1 s2 b \<Longrightarrow> adds s s2 b"
  using adds_trans [of s s1 "[]" s2 b] by simp

lemma adds_append: "filter is_connect_event es = ces \<Longrightarrow> adds s (s\<lparr>trace := trace s @ es\<rparr>) ces"
  by (auto simp: adds_def)

lemma adds_executeCommand:
  "adds s (snd (executeCommand env c t s)) (filter is_connect_event [Executed c t])"
  by (auto simp: adds_def executeCommand_def Let_def split: exec_outcome.splits)

lemma adds_unawaited: "adds s (deleteConnectionBySSID_unawaited quote n s) []"
  by (auto simp: adds_def deleteConnectionBySSID_unawaited_def)

lemma adds_wait_loop: "adds s (snd (waitForActiveConnection_loop env cmd a cso lst s)) []"
proof (induction env cmd a cso lst s rule: waitForActiveConnection_loop.induct)
  case (1 env cmd a cso lst s)
  obtain cs s1 where ex: "executeCommand env cmd None s = (cs, s1)" by (cases "executeCommand env cmd None s")
  have step: "adds s s1 []"
    using adds_executeCommand [of s env cmd None] by (simp add: ex)
  show ?case
  proof (cases "a < 75")
    case False
    then show ?thesis
      by (subst waitForActiveConnection_loop.simps) (simp add: adds_refl split: option.splits)
  next
    case True
    note IH1 = "1.IH"(1)[OF True ex[symmetric]]
    note IH2 = "1.IH"(2)[OF True ex[symmetric]]
    show ?thesis
      using True step IH1 IH2
      by (subst waitForActiveConnection_loop.simps) (auto simp: ex intro: adds_then)
  qed
qed

lemma adds_attempt_loop: "adds s (snd (attemptServerConnection_loop env a conn s)) []"
proof (induction env a conn s rule: attemptServerConnection_loop.induct)
  case (1 env a conn s)
  obtain c s1 where ex: "checkConnectionToServer env s = (c, s1)"
    by (cases "checkConnectionToServer env s")
  have step: "adds s s1 []"
    using adds_executeCommand [of s env "probeCommand (store s ''host'')" "Some ''server connection''"]
    using ex by (simp add: checkConnectionToServer_def)
  show ?case
  proof (cases "a < 20")
    case False
    then show ?thesis
      by (subst attemptServerConnection_loop.simps) (simp add: adds_refl split: option.splits)
  next
    case True
    note IH = "1.IH"[OF True ex[symmetric]]
    show ?thesis
      using True step IH
      by (subst attemptServerConnection_loop.simps) (auto simp: ex intro: adds_then)
  qed
qed

lemma adds_serverStep: "adds s (snd (serverStep quote env n s)) []"
proof -
  obtain r s1 where ex: "attemptServerConnection env s = (r, s1)"
    by (cases "attemptServerConnection env s")
  have a1: "adds s s1 []"
    using adds_attempt_loop [of s env 0 None] ex by (simp add: attemptServerConnection_def)
  have a2: "adds s (deleteConnectionBySSID_unawaited quote n s1) []"
    using a1 adds_unawaited by (rule adds_then)
  show ?thesis
    using a1 a2 by (simp add: serverStep_def ex split: js_value.splits)
qed

lemma adds_resolve: "adds s (snd (resolveNetworkConnection quote env connection n s)) []"
proof (cases "success connection")
  case False
  then show ?thesis by (simp add: resolveNetworkConnection_def adds_refl)
next
  case True
  obtain r s1 where ex: "waitForActiveConnection quote env n s = (r, s1)"
    by (cases "waitForActiveConnection quote env n s")
  have a1: "adds s s1 []"
    using adds_wait_loop [of s env "connectionStateCommand quote n" 0 None None] ex
    by (simp add: waitForActiveConnection_def)
  have a2: "adds s (snd (serverStep quote env n s1)) []"
    using a1 adds_serverStep by (rule adds_then)
  have a3: "adds s (deleteConnectionBySSID_unawaited quote n s1) []"
    using a1 adds_unawaited by (rule adds_then)
  show ?thesis
    using True a1 a2 a3
    by (auto simp add: resolveNetworkConnection_def ex split: sum.splits bool.splits prod.splits)
qed


lemma adds_unsecure:
  "adds s (snd (connectToUnsecureNetwork quote env n s))
     [Executed (quote (map Some [''nmcli'', ''device'', ''wifi'', ''connect'', n]))
        (Some ''Unsecure network connection'')]"
proof -
  let ?c = "quote (map Some [''nmcli'', ''device'', ''wifi'', ''connect'', n])"
  obtain r s1 where ex: "executeCommand env ?c (Some ''Unsecure network connection'') s = (r, s1)"
    by (cases "executeCommand env ?c (Some ''Unsecure network connection'') s")
  have "adds s s1 [Executed ?c (Some ''Unsecure network connection'')]"
    using adds_executeCommand [of s env ?c "Some ''Unsecure network connection''"] ex by simp
  from adds_trans [OF this adds_resolve [of s1 quote env r n]] show ?thesis
    by (simp add: connectToUnsecureNetwork_def ex [simplified])
qed

lemma adds_WPA:
  "adds s (snd (connectToWPANetwork quote env n pw s))
     [Executed (quote (addProfileArgs ''connection'' n pw)) (Some ''WPA network connection'')]"
proof -
  let ?c = "quote (addProfileArgs ''connection'' n pw)"
  obtain r s1 where ex: "executeCommand env ?c (Some ''WPA network connection'') s = (r, s1)"
    by (cases "executeCommand env ?c (Some ''WPA network connection'') s")
  have "adds s s1 [Executed ?c (Some ''WPA network connection'')]"
    using adds_executeCommand [of s env ?c "Some ''WPA network connection''"] ex by simp
  from adds_trans [OF this adds_resolve [of s1 quote env r n]] show ?thesis
    by (simp add: connectToWPANetwork_def ex)
qed

lemma adds_hidden:
  "adds s (snd (connectToHiddenNetwork quote env n pw s))
     [Executed (quote (addProfileArgs ''conn'' n pw)) (Some ''Network connection'')]"
proof -
  let ?c = "quote (addProfileArgs ''conn'' n pw)"
  let ?u = "quote (map Some [''nmcli'', ''conn'', ''up'', n])"
  obtain r s1 where ex: "executeCommand env ?c (Some ''Network connection'') s = (r, s1)"
    by (cases "executeCommand env ?c (Some ''Network connection'') s")
  obtain r2 s2 where ex2: "executeCommand env ?u None s1 = (r2, s2)"
    by (cases "executeCommand env ?u None s1")
  have a1: "adds s s1 [Executed ?c (Some ''Network connection'')]"
    using adds_executeCommand [of s env ?c "Some ''Network connection''"] ex by simp
  have a2: "adds s1 s2 []"
    using adds_executeCommand [of s1 env ?u None] ex2 by simp
  have a3: "adds s1 (snd (serverStep quote env n s2)) []"
    using a2 adds_serverStep by (rule adds_then)
  have a4: "adds s1 (deleteConnectionBySSID_unawaited quote n s2) []"
    using a2 adds_unawaited by (rule adds_then)
  have "adds s1 (snd (connectToHiddenNetwork quote env n pw s)) []"
    using a3 a4
    by (simp add: connectToHiddenNetwork_def ex [simplified] ex2 [simplified] adds_refl)
  from adds_trans [OF a1 this] show ?thesis by simp
qed



lemma connectToNetwork_unfold:
  "connectToNetwork quote env data s =
     (case dispatched quote env data (prepared quote env data s) of
        (Inl e, s4) \<Rightarrow> (Inl e, s4)
      | (Inr result, s4) \<Rightarrow>
          (Inr result, s4\<lparr>trace := trace s4 @ [Emitted ''connecting_result'' (Result result)]\<rparr>))"
  by (simp add: connectToNetwork_def prepared_def dispatched_def Let_def)

lemma adds_dispatched:
  "adds s3 (snd (dispatched quote env data s3)) [connectCommand quote data]"
  using adds_hidden [of s3 quote env "ssid data" "password data"]
        adds_WPA [of s3 quote env "ssid data" "password data"]
        adds_unsecure [of s3 quote env "ssid data"]
  by (simp add: connectCommand_def dispatched_def)

lemma adds_connectToNetwork:
  "adds (prepared quote env data s) (snd (connectToNetwork quote env data s))
     [connectCommand quote data]"
proof -
  obtain r s4 where D: "dispatched quote env data (prepared quote env data s) = (r, s4)"
    by (cases "dispatched quote env data (prepared quote env data s)")
  have a: "adds (prepared quote env data s) s4 [connectCommand quote data]"
    using adds_dispatched [of "prepared quote env data s" quote env data] D by simp
  have b: "adds s4 (s4\<lparr>trace := trace s4 @ [Emitted ''connecting_result'' (Result x)]\<rparr>) []" for x
    by (rule adds_append) simp
  show ?thesis
    using a adds_trans [OF a b]
    by (auto simp add: connectToNetwork_unfold D split: sum.splits)
qed

lemma prepared_trace_Some:
  assumes "lastConnectionSSID s = Some old"
  shows "trace (prepared quote env data s) =
           trace s @ [Emitted ''is_connecting'' NoPayload,
                      Executed (deleteCommand quote old) (Some ''delete ssid'')]
           @ (case env (issued s) (deleteCommand quote old) of
                Resolved out err \<Rightarrow> []
              | Rejected e \<Rightarrow> [Logged e ''delete ssid''])
           @ [Assigned None, Assigned (Some (ssid data))]"
  using assms
  by (simp add: prepared_def deleteConnectionBySSID_def executeCommand_def issued_def Let_def
        split: exec_outcome.splits)

lemma prepared_trace_None:
  assumes "lastConnectionSSID s = None"
  shows "trace (prepared quote env data s) =
           trace s @ [Emitted ''is_connecting'' NoPayload, Assigned (Some (ssid data))]"
  using assms by (simp add: prepared_def)

lemma prepared_adds: "adds s (prepared quote env data s) []"
proof (cases "lastConnectionSSID s")
  case None
  show ?thesis
    unfolding adds_def prepared_trace_None [OF None] by simp
next
  case (Some old)
  show ?thesis
    unfolding adds_def prepared_trace_Some [OF Some]
    by (simp split: exec_outcome.splits)
qed

text \<open>
  Claim C5. Every call of \<^verbatim>\<open>connectToNetwork\<close> starts exactly one command that opens a way
  to connect, and it is the one the precedence selects: the hidden-network profile if the
  hidden flag is set; otherwise the WPA profile if the security contains \<^verbatim>\<open>WPA\<close> and the
  password is non-empty; otherwise the plain connect command.
\<close>

theorem connectToNetwork_dispatch_precedence:
  "filter is_connect_event (trace (snd (connectToNetwork quote env data s))) =
     filter is_connect_event (trace s) @ [connectCommand quote data]"
  using adds_then [OF prepared_adds adds_connectToNetwork, of s quote env data]
  by (auto simp: adds_def)



lemma connectCommand_examples:
  "connectCommand quote0 data_hidden =
     Executed ''nmcli conn add type wifi ifname wlan0 con-name Lab ssid Lab -- wifi-sec.key-mgmt wpa-psk wifi-sec.psk pw12345678''
       (Some ''Network connection'')"
  "connectCommand quote0 data_wpa =
     Executed ''nmcli connection add type wifi ifname wlan0 con-name Home ssid Home -- wifi-sec.key-mgmt wpa-psk wifi-sec.psk secret123''
       (Some ''WPA network connection'')"
  "connectCommand quote0 data_open =
     Executed ''nmcli device wifi connect Cafe'' (Some ''Unsecure network connection'')"
  by (simp_all add: connectCommand_def data_hidden_def data_wpa_def data_open_def
        addProfileArgs_def startsWith_def)

theorem connectToNetwork_dispatch_precedence_witness:
  "filter is_connect_event (trace (snd (connectToNetwork quote0 env_down data_hidden state0))) =
     [Executed ''nmcli conn add type wifi ifname wlan0 con-name Lab ssid Lab -- wifi-sec.key-mgmt wpa-psk wifi-sec.psk pw12345678''
        (Some ''Network connection'')]
   \<and> filter is_connect_event (trace (snd (connectToNetwork quote0 env_down data_wpa state0))) =
     [Executed ''nmcli connection add type wifi ifname wlan0 con-name Home ssid Home -- wifi-sec.key-mgmt wpa-psk wifi-sec.psk secret123''
        (Some ''WPA network connection'')]
   \<and> filter is_connect_event (trace (snd (connectToNetwork quote0 env_down data_open state0))) =
     [Executed ''nmcli device wifi connect Cafe'' (Some ''Unsecure network connection'')]"
  using connectToNetwork_dispatch_precedence [of quote0 env_down data_hidden state0]
        connectToNetwork_dispatch_precedence [of quote0 env_down data_wpa state0]
        connectToNetwork_dispatch_precedence [of quote0 env_down data_open state0]
  by (simp add: connectCommand_examples state0_def)


end
